theory Spec2Isabelle
  imports Main "HOL-Library.Sublist"
begin

section \<open>Backend store: key/value records and blob files\<close>

text \<open>
  The edge function \<^verbatim>\<open>supabase/functions/server/index.tsx\<close> keeps its records in a
  key/value table (module \<^verbatim>\<open>kv_store.tsx\<close>) and the captured media in an object-store
  bucket. A blob is the list of its bytes; its \<^verbatim>\<open>size\<close> is the length of that list.
\<close>

type_synonym blob = "nat list"

record recording =
  r_participantId :: string
  r_taskNumber :: "int option"
  r_audioPath :: "string option"
  r_screenPath :: "string option"
  r_transcript :: string
  r_duration :: "int option"
  r_timestamp :: string

text \<open>
  The participant record. The submitted answers are kept whole in \<open>p_responses\<close>; the
  per-section copies the handler also stores (demographics, screening, tasks, closing,
  timings) are projections of that object and are not listed again.
\<close>

record participant =
  p_participantId :: string
  p_ipAddress :: string
  p_startedAt :: string
  p_submitted :: bool
  p_userAgent :: string
  p_referrer :: "string option"
  p_isFallback :: bool
  p_responses :: "string option"
  p_submittedAt :: "string option"

datatype kv_value =
    ParticipantV participant
  | RecordingV recording
  | TranscriptV string
  | AnalysisV string

type_synonym kv_store = "(string \<times> kv_value) list"
type_synonym storage = "(string \<times> blob) list"

text \<open>
  The module \<^verbatim>\<open>kv_store.tsx\<close> is imported by the server but is not among the sources.
  The spec calls it a durable key/value record store; it is taken to be a table of rows
  with the key as primary key. The handlers below treat the table as reachable: a store
  call that throws would land in a handler's \<^verbatim>\<open>catch\<close>.
\<close>

text \<open>Modelled from the spec: \<^verbatim>\<open>kv.get(key)\<close> returns the value stored under the key, if any.\<close>

definition kv_get :: "string \<Rightarrow> kv_store \<Rightarrow> kv_value option" where
  "kv_get k rows = map_of rows k"

text \<open>
  Modelled from the spec: a write to a key that has a row replaces that row's value and
  otherwise adds a row (re-uploads overwrite rather than duplicate).
\<close>

fun upsert :: "string \<Rightarrow> 'v \<Rightarrow> (string \<times> 'v) list \<Rightarrow> (string \<times> 'v) list" where
  "upsert k v [] = [(k, v)]"
| "upsert k v ((k', v') # rows) =
     (if k' = k then (k, v) # rows else (k', v') # upsert k v rows)"

text \<open>Modelled from the spec: \<^verbatim>\<open>kv.set(key, value)\<close> inserts or overwrites the row of the key.\<close>

definition kv_set :: "string \<Rightarrow> kv_value \<Rightarrow> kv_store \<Rightarrow> kv_store" where
  "kv_set k v rows = upsert k v rows"

text \<open>Modelled from the spec: \<^verbatim>\<open>kv.del(key)\<close> removes the row of the key.\<close>

definition kv_del :: "string \<Rightarrow> kv_store \<Rightarrow> kv_store" where
  "kv_del k rows = filter (\<lambda>row. fst row \<noteq> k) rows"

text \<open>Modelled from the spec: \<^verbatim>\<open>kv.mdel(keys)\<close> removes the rows of all the keys given.\<close>

definition kv_mdel :: "string list \<Rightarrow> kv_store \<Rightarrow> kv_store" where
  "kv_mdel ks rows = filter (\<lambda>row. fst row \<notin> set ks) rows"

text \<open>
  Modelled from the spec: \<^verbatim>\<open>kv.getByPrefix(prefix)\<close> returns the values (not the keys, as
  the server's comments note) of the rows whose key starts with the prefix.
\<close>

definition kv_getByPrefix :: "string \<Rightarrow> kv_store \<Rightarrow> kv_value list" where
  "kv_getByPrefix pfx rows = map snd (filter (\<lambda>row. prefix pfx (fst row)) rows)"

text \<open>
  The storage bucket \<^verbatim>\<open>make-b0f3b375-recordings\<close>. Every upload in the server passes
  \<^verbatim>\<open>upsert: true\<close>, so a write to an existing path replaces the object there;
  \<^verbatim>\<open>remove\<close> deletes the object at a path.
\<close>

definition storage_upload :: "string \<Rightarrow> blob \<Rightarrow> storage \<Rightarrow> storage" where
  "storage_upload path b fs = upsert path b fs"

definition storage_remove :: "string \<Rightarrow> storage \<Rightarrow> storage" where
  "storage_remove path fs = filter (\<lambda>f. fst f \<noteq> path) fs"

record server =
  kv :: kv_store
  files :: storage

subsection \<open>Decimal rendering of a loop counter\<close>

definition digit :: "nat \<Rightarrow> char" where
  "digit d = ''0123456789'' ! d"

function string_of_nat :: "nat \<Rightarrow> string" where
  "string_of_nat n =
     (if n < 10 then [digit n] else string_of_nat (n div 10) @ [digit (n mod 10)])"
  by pat_completeness auto
termination
  by (relation "measure id") auto

declare string_of_nat.simps [simp del]

subsection \<open>Request headers and the client address\<close>

record headers =
  x_forwarded_for :: "string option"
  x_real_ip :: "string option"
  user_agent :: "string option"
  referer :: "string option"
  referrer :: "string option"

text \<open>JavaScript's \<^verbatim>\<open>a || b\<close> on header values: an absent or empty string is falsy.\<close>

definition falsy :: "string option \<Rightarrow> bool" where
  "falsy s = (s = None \<or> s = Some [])"

definition or_else :: "string option \<Rightarrow> string \<Rightarrow> string" where
  "or_else s d = (case s of None \<Rightarrow> d | Some v \<Rightarrow> if v = [] then d else v)"

definition getClientIP :: "headers \<Rightarrow> string" where
  "getClientIP h =
     (if \<not> falsy (x_forwarded_for h) then the (x_forwarded_for h)
      else or_else (x_real_ip h) ''unknown'')"

subsection \<open>POST /check-participant\<close>

text \<open>
  What the runtime supplies to a handler: the identifier that
  \<^verbatim>\<open>generateParticipantId\<close> draws from the clock and the random source, and the
  ISO timestamp of \<^verbatim>\<open>new Date()\<close>.
\<close>

record runtime =
  fresh_id :: string
  now_iso :: string

datatype check_response =
    CheckBlocked string
  | CheckAllowed string string

definition hasSubmitted :: "string \<Rightarrow> kv_value list \<Rightarrow> bool" where
  "hasSubmitted clientIP existingParticipants =
     list_ex (\<lambda>v. case v of
                 ParticipantV p \<Rightarrow> p_ipAddress p = clientIP \<and> p_submitted p
               | _ \<Rightarrow> False) existingParticipants"

definition check_participant ::
  "runtime \<Rightarrow> headers \<Rightarrow> server \<Rightarrow> check_response \<times> server" where
  "check_participant rt h st =
     (let clientIP = getClientIP h;
          existingParticipants = kv_getByPrefix ''participant:'' (kv st)
      in if hasSubmitted clientIP existingParticipants
         then (CheckBlocked
                 ''You have already completed this test. Thank you for your participation!'', st)
         else
           let participantId = fresh_id rt;
               timestamp = now_iso rt;
               initialData = \<lparr> p_participantId = participantId,
                               p_ipAddress = clientIP,
                               p_startedAt = timestamp,
                               p_submitted = False,
                               p_userAgent = or_else (user_agent h) ''unknown'',
                               p_referrer =
                                 Some (if \<not> falsy (referer h) then the (referer h)
                                       else or_else (referrer h) ''Direct''),
                               p_isFallback = False,
                               p_responses = None,
                               p_submittedAt = None \<rparr>
           in (CheckAllowed participantId timestamp,
               st\<lparr>kv := kv_set (''participant:'' @ participantId)
                               (ParticipantV initialData) (kv st)\<rparr>))"

subsection \<open>POST /submit-response\<close>

text \<open>
  The JSON body: \<open>sr_participantId\<close> is empty when the field is missing, \<open>sr_responses\<close>
  is \<open>None\<close> when the field is missing or null (destructuring it then throws, and the
  handler's \<^verbatim>\<open>catch\<close> answers 500). Keys with the prefix \<^verbatim>\<open>participant:\<close> hold
  participant records only. The handler reads the stored record to merge the answers into
  it; it does not read the record's \<^verbatim>\<open>submitted\<close> field.
\<close>

record submit_request =
  sr_participantId :: string
  sr_responses :: "string option"

datatype submit_response =
    SubmitSuccess
  | SubmitError nat string

definition submit_response ::
  "runtime \<Rightarrow> headers \<Rightarrow> submit_request \<Rightarrow> server \<Rightarrow> submit_response \<times> server" where
  "submit_response rt h req st =
     (let participantId = sr_participantId req in
      if participantId = [] then (SubmitError 400 ''Participant ID required'', st)
      else
        let key = ''participant:'' @ participantId;
            found = (case kv_get key (kv st) of
                       Some (ParticipantV p) \<Rightarrow> Some p
                     | _ \<Rightarrow> None);
            fallback = \<lparr> p_participantId = participantId,
                         p_ipAddress = getClientIP h,
                         p_startedAt = now_iso rt,
                         p_submitted = False,
                         p_userAgent = or_else (user_agent h) ''unknown'',
                         p_referrer = None,
                         p_isFallback = True,
                         p_responses = None,
                         p_submittedAt = None \<rparr>;
            participantData = (case found of Some p \<Rightarrow> p | None \<Rightarrow> fallback);
            st1 = (case found of
                     Some p \<Rightarrow> st
                   | None \<Rightarrow> st\<lparr>kv := kv_set key (ParticipantV fallback) (kv st)\<rparr>)
        in case sr_responses req of
             None \<Rightarrow> (SubmitError 500 ''Failed to submit response'', st1)
           | Some responses \<Rightarrow>
               let updatedData = participantData\<lparr> p_responses := Some responses,
                                                 p_submittedAt := Some (now_iso rt),
                                                 p_submitted := True \<rparr>
               in (SubmitSuccess,
                   st1\<lparr>kv := kv_set key (ParticipantV updatedData) (kv st1)\<rparr>))"

subsection \<open>POST /upload-recording\<close>

text \<open>
  The multipart form: a field that was not sent reads as \<open>None\<close>. The environment of one
  request says whether the object store accepts each write (the client library reports a
  failed write in its \<^verbatim>\<open>error\<close> field, it does not throw), whether the key/value
  write throws, what \<^verbatim>\<open>transcribeAudio\<close> returns for the audio (it catches its own
  errors and then returns the empty string), the runtime's \<^verbatim>\<open>parseInt\<close>
  (\<open>None\<close> for NaN), and the clock. The result of \<^verbatim>\<open>ensureStorageBucket\<close> is only
  logged and does not appear.
\<close>

record upload_request =
  u_participantId :: "string option"
  u_taskNumber :: "string option"
  u_audioBlob :: "blob option"
  u_screenBlob :: "blob option"
  u_transcript :: "string option"
  u_duration :: "string option"

record upload_env =
  audioStoreFails :: bool
  screenStoreFails :: bool
  kvSetFails :: bool
  transcribeAudio :: "blob \<Rightarrow> string"
  parseInt :: "string \<Rightarrow> int option"
  upload_time :: string

record upload_result =
  res_audioPath :: "string option"
  res_screenPath :: "string option"
  res_audioSize :: nat
  res_screenSize :: nat
  res_transcriptGenerated :: bool
  res_transcriptLength :: nat

datatype upload_response =
    UploadSuccess upload_result
  | UploadError nat string

definition maxSize :: nat where
  "maxSize = 50 * 1024 * 1024"

definition blob_size :: "blob option \<Rightarrow> nat" where
  "blob_size b = (case b of None \<Rightarrow> 0 | Some bytes \<Rightarrow> length bytes)"

definition audio_path :: "string \<Rightarrow> string \<Rightarrow> string" where
  "audio_path participantId taskNumber = participantId @ ''/task'' @ taskNumber @ ''_audio.webm''"

definition screen_path :: "string \<Rightarrow> string \<Rightarrow> string" where
  "screen_path participantId taskNumber = participantId @ ''/task'' @ taskNumber @ ''_screen.webm''"

definition recording_key :: "string \<Rightarrow> string \<Rightarrow> string" where
  "recording_key participantId taskNumber = ''recording:'' @ participantId @ '':task'' @ taskNumber"

definition parse_opt :: "upload_env \<Rightarrow> string option \<Rightarrow> int option" where
  "parse_opt env s = (case s of None \<Rightarrow> None | Some v \<Rightarrow> parseInt env v)"

text \<open>
  The audio step: \<open>Inl\<close> is the early 413 answer; otherwise the path written into the
  metadata, the transcript produced, and the files after the step.
\<close>

definition upload_audio ::
  "upload_env \<Rightarrow> string \<Rightarrow> string \<Rightarrow> blob option \<Rightarrow> storage
     \<Rightarrow> upload_response + (string option \<times> string \<times> storage)" where
  "upload_audio env participantId taskNumber audioBlob fs =
     (if 0 < blob_size audioBlob then
        let audioPath = audio_path participantId taskNumber in
        if maxSize < blob_size audioBlob then Inl (UploadError 413 ''Audio file exceeds 50MB limit'')
        else if audioStoreFails env then Inr (Some audioPath, [], fs)
        else Inr (Some audioPath, transcribeAudio env (the audioBlob),
                  storage_upload audioPath (the audioBlob) fs)
      else Inr (None, [], fs))"

definition upload_screen ::
  "upload_env \<Rightarrow> string \<Rightarrow> string \<Rightarrow> blob option \<Rightarrow> storage
     \<Rightarrow> upload_response + (string option \<times> storage)" where
  "upload_screen env participantId taskNumber screenBlob fs =
     (if 0 < blob_size screenBlob then
        let screenPath = screen_path participantId taskNumber in
        if maxSize < blob_size screenBlob
        then Inl (UploadError 413 ''Screen recording exceeds 50MB limit'')
        else if screenStoreFails env then Inr (Some screenPath, fs)
        else Inr (Some screenPath, storage_upload screenPath (the screenBlob) fs)
      else Inr (None, fs))"

definition upload_metadata ::
  "upload_env \<Rightarrow> upload_request \<Rightarrow> string option \<Rightarrow> string option \<Rightarrow> string \<Rightarrow> recording" where
  "upload_metadata env req audioPath screenPath generatedTranscript =
     \<lparr> r_participantId = the (u_participantId req),
       r_taskNumber = parse_opt env (u_taskNumber req),
       r_audioPath = audioPath,
       r_screenPath = screenPath,
       r_transcript = (if generatedTranscript \<noteq> [] then generatedTranscript
                       else or_else (u_transcript req) []),
       r_duration = parse_opt env (u_duration req),
       r_timestamp = upload_time env \<rparr>"

definition upload_recording ::
  "upload_env \<Rightarrow> upload_request \<Rightarrow> server \<Rightarrow> upload_response \<times> server" where
  "upload_recording env req st =
     (if falsy (u_participantId req) \<or> falsy (u_taskNumber req)
      then (UploadError 400 ''Missing required fields'', st)
      else
        let participantId = the (u_participantId req);
            taskNumber = the (u_taskNumber req)
        in case upload_audio env participantId taskNumber (u_audioBlob req) (files st) of
             Inl err \<Rightarrow> (err, st)
           | Inr (audioPath, generatedTranscript, fs1) \<Rightarrow>
               (case upload_screen env participantId taskNumber (u_screenBlob req) fs1 of
                  Inl err \<Rightarrow> (err, st\<lparr>files := fs1\<rparr>)
                | Inr (screenPath, fs2) \<Rightarrow>
                    let metadata = upload_metadata env req audioPath screenPath generatedTranscript;
                        kvKey = recording_key participantId taskNumber
                    in if kvSetFails env
                       then (UploadError 500 ''Failed to upload recording'', st\<lparr>files := fs2\<rparr>)
                       else (UploadSuccess
                               \<lparr> res_audioPath = audioPath,
                                 res_screenPath = screenPath,
                                 res_audioSize = blob_size (u_audioBlob req),
                                 res_screenSize = blob_size (u_screenBlob req),
                                 res_transcriptGenerated = (generatedTranscript \<noteq> []),
                                 res_transcriptLength = length (r_transcript metadata) \<rparr>,
                             \<lparr> kv = kv_set kvKey (RecordingV metadata) (kv st),
                               files = fs2 \<rparr>)))"

subsection \<open>DELETE /participant/:id\<close>

text \<open>
  The participant's own exit path. The keys handed to \<^verbatim>\<open>mdel\<close> are built by the loop
  \<^verbatim>\<open>for (let i = 1; i <= 6; i++)\<close>; the stored files are removed for every record
  that \<^verbatim>\<open>getByPrefix\<close> returned.
\<close>

datatype delete_response =
    DeleteSuccess
  | DeleteError nat string

definition task_keys :: "string \<Rightarrow> string \<Rightarrow> string list" where
  "task_keys kind participantId =
     map (\<lambda>i. kind @ participantId @ '':task'' @ string_of_nat i) [1..<7]"

fun remove_recording_files :: "kv_value list \<Rightarrow> storage \<Rightarrow> storage" where
  "remove_recording_files [] fs = fs"
| "remove_recording_files (RecordingV r # rest) fs =
     (let fs1 = (case r_audioPath r of
                   None \<Rightarrow> fs
                 | Some path \<Rightarrow> if path = [] then fs else storage_remove path fs);
          fs2 = (case r_screenPath r of
                   None \<Rightarrow> fs1
                 | Some path \<Rightarrow> if path = [] then fs1 else storage_remove path fs1)
      in remove_recording_files rest fs2)"
| "remove_recording_files (v # rest) fs = remove_recording_files rest fs"

definition delete_participant :: "string \<Rightarrow> server \<Rightarrow> delete_response \<times> server" where
  "delete_participant participantId st =
     (if participantId = [] then (DeleteError 400 ''Participant ID required'', st)
      else case kv_get (''participant:'' @ participantId) (kv st) of
        None \<Rightarrow> (DeleteSuccess, st)
      | Some participantData \<Rightarrow>
          let kv1 = kv_del (''participant:'' @ participantId) (kv st);
              recordings = kv_getByPrefix (''recording:'' @ participantId @ '':'') kv1;
              kv2 = (if recordings \<noteq> [] then kv_mdel (task_keys ''recording:'' participantId) kv1
                     else kv1);
              fs2 = (if recordings \<noteq> [] then remove_recording_files recordings (files st)
                     else files st);
              transcripts = kv_getByPrefix (''transcript:'' @ participantId @ '':'') kv2;
              kv3 = (if transcripts \<noteq> [] then kv_mdel (task_keys ''transcript:'' participantId) kv2
                     else kv2);
              kv4 = (case kv_get (''analysis:'' @ participantId) kv3 of
                       None \<Rightarrow> kv3
                     | Some analysis \<Rightarrow> kv_del (''analysis:'' @ participantId) kv3)
          in (DeleteSuccess, \<lparr> kv = kv4, files = fs2 \<rparr>))"

section \<open>Browser client: recorder, upload queue and final submission\<close>

text \<open>
  The state of one task's \<^verbatim>\<open>AutoRecorder\<close> component together with the page-wide
  \<^verbatim>\<open>recordingQueue\<close> singleton and the \<^verbatim>\<open>App\<close>'s final submission. The browser
  runs one callback at a time, and after each callback all queued promise reactions; an
  \<open>event\<close> below is one such callback.

  A promise is named by a number. The queue accepts any \<^verbatim>\<open>Promise<void>\<close>: besides
  the promises this recorder's \<^verbatim>\<open>saveRecordings\<close> returns, the set may hold promises
  registered by the recorders of other tasks.
\<close>

datatype recorder_state = Inactive | Recording | Paused

datatype settlement = Fulfilled | Rejected

datatype submit_state = NotSubmitting | AwaitingDrain "nat list" | Posted

record js_error =
  name :: string
  message :: string

text \<open>
  How the upload request ends: an answer with \<^verbatim>\<open>response.ok\<close>, the body text and
  whether \<^verbatim>\<open>JSON.parse\<close> accepts that text; or a rejection of \<^verbatim>\<open>fetch\<close> (or of
  reading the body) with an error, an \<^verbatim>\<open>AbortError\<close> when the two-minute timer
  aborted the request.
\<close>

datatype fetch_result =
    Answered bool string bool
  | Failed js_error

record client =
  screenChunks :: "blob list"
  mediaRecorder :: "recorder_state option"
  onstopFired :: bool
  onstopWrapped :: bool
  onstopTimeout :: "nat option"
  isSaving :: bool
  saveComplete :: bool
  error :: string
  pendingUploads :: "nat list"
  next_promise :: nat
  settled :: "(nat \<times> settlement) list"
  finally_jobs :: "nat list"
  in_flight :: "(nat \<times> blob) list"
  submission :: submit_state
  clock :: nat
  saveLog :: "(nat \<times> nat \<times> blob) list"
  addLog :: "nat list"

text \<open>
  \<open>onstopTimeout\<close> is the deadline of the armed two-second timer of \<^verbatim>\<open>stopRecording\<close>
  (\<open>None\<close>: not armed, cleared or already run). \<open>finally_jobs\<close> are the queued
  \<^verbatim>\<open>.finally\<close> reactions of \<^verbatim>\<open>addUpload\<close>, each deleting its promise from the set.
  \<open>in_flight\<close> are the upload requests that have not been answered. \<open>saveLog\<close> and
  \<open>addLog\<close> are the console lines of \<^verbatim>\<open>saveRecordings\<close> (time, promise, assembled
  blob) and of \<^verbatim>\<open>addUpload\<close> (promise), in order. The polling interval and the
  elapsed-time counter, which \<^verbatim>\<open>stopRecording\<close> clears first, are left out.
\<close>

subsection \<open>Promises and the RecordingQueue\<close>

definition is_settled :: "nat \<Rightarrow> client \<Rightarrow> bool" where
  "is_settled p s = (p \<in> fst ` set (settled s))"

definition settlement_of :: "js_error + unit \<Rightarrow> settlement" where
  "settlement_of r = (case r of Inl e \<Rightarrow> Rejected | Inr u \<Rightarrow> Fulfilled)"

text \<open>
  Settling a promise queues the reaction that \<^verbatim>\<open>addUpload\<close> attached to it; a promise
  is in the set exactly while it carries that reaction and the reaction has not run.
\<close>

definition settle :: "nat \<Rightarrow> settlement \<Rightarrow> client \<Rightarrow> client" where
  "settle p out s =
     s\<lparr> settled := settled s @ [(p, out)],
        finally_jobs := finally_jobs s @ (if p \<in> set (pendingUploads s) then [p] else []) \<rparr>"

definition addUpload :: "nat \<Rightarrow> client \<Rightarrow> client" where
  "addUpload uploadPromise s =
     (let s1 = s\<lparr> pendingUploads :=
                    (if uploadPromise \<in> set (pendingUploads s) then pendingUploads s
                     else pendingUploads s @ [uploadPromise]),
                  addLog := addLog s @ [uploadPromise] \<rparr>
      in if is_settled uploadPromise s1
         then s1\<lparr> finally_jobs := finally_jobs s1 @ [uploadPromise] \<rparr>
         else s1)"

definition getPendingCount :: "client \<Rightarrow> nat" where
  "getPendingCount s = length (pendingUploads s)"

text \<open>
  \<^verbatim>\<open>waitForAll\<close>: \<open>None\<close> when it returns at once on an empty set, otherwise the array
  \<^verbatim>\<open>Array.from(this.pendingUploads)\<close> handed to \<^verbatim>\<open>Promise.allSettled\<close>, which
  resolves when every promise of that array has settled, fulfilled or rejected.
\<close>

definition waitForAll :: "client \<Rightarrow> nat list option" where
  "waitForAll s = (if length (pendingUploads s) = 0 then None else Some (pendingUploads s))"

definition allSettled :: "nat list \<Rightarrow> client \<Rightarrow> bool" where
  "allSettled ps s = list_all (\<lambda>p. is_settled p s) ps"

definition run_microtasks :: "client \<Rightarrow> client" where
  "run_microtasks s =
     s\<lparr> pendingUploads := filter (\<lambda>p. p \<notin> set (finally_jobs s)) (pendingUploads s),
        finally_jobs := [] \<rparr>"

subsection \<open>AutoRecorder\<close>

definition startRecording :: "bool \<Rightarrow> client \<Rightarrow> client" where
  "startRecording supported s =
     (let s1 = s\<lparr> error := [], screenChunks := [] \<rparr>
      in if supported
         then s1\<lparr> mediaRecorder := Some Recording, onstopFired := False, onstopWrapped := False \<rparr>
         else s1\<lparr> error := ''Failed to start recording'' \<rparr>)"

text \<open>
  The mount effect: \<open>stream\<close> is \<open>None\<close> for a missing stream, otherwise its
  \<^verbatim>\<open>active\<close> flag; \<open>supported\<close> says whether the \<^verbatim>\<open>MediaRecorder\<close> constructor and
  \<^verbatim>\<open>start()\<close> succeed.
\<close>

definition mount :: "bool option \<Rightarrow> bool \<Rightarrow> client \<Rightarrow> client" where
  "mount stream supported s =
     (case stream of
        None \<Rightarrow> s\<lparr> error := ''Screen stream is not available'' \<rparr>
      | Some active \<Rightarrow>
          if \<not> active then s\<lparr> error := ''Screen stream is not active'' \<rparr>
          else startRecording supported s)"

definition ondataavailable :: "blob \<Rightarrow> client \<Rightarrow> client" where
  "ondataavailable data s =
     (if 0 < length data then s\<lparr> screenChunks := screenChunks s @ [data] \<rparr> else s)"

text \<open>
  \<^verbatim>\<open>saveRecordings\<close> up to its first \<^verbatim>\<open>await\<close>: the promise it returns and the state.
  With an empty blob it returns inside the \<^verbatim>\<open>try\<close>, so its promise is already fulfilled;
  otherwise the request is sent and the promise stays pending.
\<close>

definition saveRecordings :: "client \<Rightarrow> nat \<times> client" where
  "saveRecordings s =
     (let screenBlob = concat (screenChunks s);
          p = next_promise s;
          s1 = s\<lparr> next_promise := Suc p, saveLog := saveLog s @ [(clock s, p, screenBlob)] \<rparr>
      in if length screenBlob = 0
         then (p, settle p (settlement_of (Inr ()))
                    (s1\<lparr> error := ''Screen recording did not capture any data.'' \<rparr>))
         else (p, s1\<lparr> in_flight := in_flight s1 @ [(p, screenBlob)] \<rparr>))"

text \<open>The inner \<^verbatim>\<open>try\<close> block after the answer arrived, and the inner \<^verbatim>\<open>catch\<close>.\<close>

definition fetch_try :: "fetch_result \<Rightarrow> js_error + unit" where
  "fetch_try r =
     (case r of
        Failed e \<Rightarrow> Inl e
      | Answered ok responseText parses \<Rightarrow>
          if \<not> ok then Inl \<lparr> name = ''Error'', message = ''Upload failed: '' @ responseText \<rparr>
          else if \<not> parses then Inl \<lparr> name = ''SyntaxError'', message = ''JSON.parse'' \<rparr>
          else Inr ())"

definition fetch_catch :: "js_error \<Rightarrow> js_error + unit" where
  "fetch_catch fetchError =
     (if name fetchError = ''AbortError''
      then Inl \<lparr> name = ''Error'',
                 message = ''Upload timeout - recording was too large or connection too slow'' \<rparr>
      else if name fetchError = ''TypeError'' \<and> sublist ''NetworkError'' (message fetchError)
      then Inl \<lparr> name = ''Error'',
                 message = ''Network error during upload - server may be unavailable'' \<rparr>
      else Inl fetchError)"

definition try_catch :: "'e + 'a \<Rightarrow> ('e \<Rightarrow> 'e + 'a) \<Rightarrow> 'e + 'a" where
  "try_catch body handler = (case body of Inl e \<Rightarrow> handler e | Inr v \<Rightarrow> Inr v)"

text \<open>
  The rest of \<^verbatim>\<open>saveRecordings\<close> once the request has ended: what the async function
  completes with (\<open>Inl\<close>: it throws, its promise rejects) and the component state.
\<close>

definition saveRecordings_resume :: "fetch_result \<Rightarrow> client \<Rightarrow> (js_error + unit) \<times> client" where
  "saveRecordings_resume r s =
     (let inner = try_catch (fetch_try r) fetch_catch
      in (try_catch inner (\<lambda>caught. Inr ()),
          case inner of
            Inr u \<Rightarrow> s\<lparr> isSaving := False, saveComplete := True \<rparr>
          | Inl caught \<Rightarrow> s\<lparr> error := ''Failed to save recording'', isSaving := False \<rparr>))"

text \<open>
  The two lines every finalize path runs:
  \<^verbatim>\<open>const uploadPromise = saveRecordings(); recordingQueue.addUpload(uploadPromise);\<close>
\<close>

definition save_and_enqueue :: "client \<Rightarrow> client" where
  "save_and_enqueue s = (case saveRecordings s of (uploadPromise, s1) \<Rightarrow> addUpload uploadPromise s1)"

text \<open>
  The \<^verbatim>\<open>onstop\<close> handler installed by \<^verbatim>\<open>startRecording\<close>, and the wrapper that
  \<^verbatim>\<open>stopRecording\<close> puts in its place, which clears the timer and calls the original.
\<close>

definition onstop_original :: "client \<Rightarrow> client" where
  "onstop_original s =
     (if onstopFired s then s else save_and_enqueue (s\<lparr> onstopFired := True \<rparr>))"

definition onstop_wrapper :: "client \<Rightarrow> client" where
  "onstop_wrapper s = onstop_original (s\<lparr> onstopTimeout := None \<rparr>)"

definition onstop_event :: "client \<Rightarrow> client" where
  "onstop_event s =
     (case mediaRecorder s of
        None \<Rightarrow> s
      | Some st \<Rightarrow>
          let s1 = s\<lparr> mediaRecorder := Some Inactive \<rparr>
          in if onstopWrapped s1 then onstop_wrapper s1 else onstop_original s1)"

text \<open>The timer callback of \<^verbatim>\<open>stopRecording\<close>; a timer that has run is no longer armed.\<close>

definition onstopTimeout_fires :: "client \<Rightarrow> client" where
  "onstopTimeout_fires s = save_and_enqueue (s\<lparr> onstopTimeout := None \<rparr>)"

text \<open>
  \<^verbatim>\<open>stopRecording\<close>: \<^verbatim>\<open>MediaRecorder.stop()\<close> makes the recorder inactive at once and
  reports the \<^verbatim>\<open>stop\<close> event later. The recorder is inactive afterwards, so a second
  call takes the other branch and at most one wrapper and one timer ever exist.
\<close>

definition stopRecording :: "client \<Rightarrow> client" where
  "stopRecording s =
     (let s1 = s\<lparr> isSaving := True \<rparr>
      in if mediaRecorder s1 \<noteq> None \<and> mediaRecorder s1 \<noteq> Some Inactive
         then s1\<lparr> onstopTimeout := Some (clock s1 + 2000),
                  onstopWrapped := True,
                  mediaRecorder := Some Inactive \<rparr>
         else save_and_enqueue s1)"

text \<open>The answer to the upload request of promise \<open>p\<close> arrives.\<close>

definition fetch_done :: "nat \<Rightarrow> fetch_result \<Rightarrow> client \<Rightarrow> client" where
  "fetch_done p r s =
     (case map_of (in_flight s) p of
        None \<Rightarrow> s
      | Some screenBlob \<Rightarrow>
          (case saveRecordings_resume r (s\<lparr> in_flight := filter (\<lambda>f. fst f \<noteq> p) (in_flight s) \<rparr>) of
             (res, s1) \<Rightarrow> settle p (settlement_of res) s1))"

text \<open>
  A promise registered by somebody else settles. The promises of this recorder's own
  requests settle through \<open>fetch_done\<close> only, and a promise settles once.
\<close>

definition foreign_settles :: "nat \<Rightarrow> settlement \<Rightarrow> client \<Rightarrow> client" where
  "foreign_settles p out s =
     (if is_settled p s \<or> p \<in> fst ` set (in_flight s) then s else settle p out s)"

subsection \<open>App: the final submission\<close>

text \<open>
  \<^verbatim>\<open>submitFinalResponses\<close> with a participant id at hand: after the barrier nothing is
  awaited before the POST to \<^verbatim>\<open>/submit-response\<close>, so \<open>Posted\<close> is the state in which
  that request has been sent. \<open>resume_submit\<close> is the continuation behind
  \<^verbatim>\<open>await recordingQueue.waitForAll()\<close>.
\<close>

definition submitFinalResponses :: "client \<Rightarrow> client" where
  "submitFinalResponses s =
     (if submission s \<noteq> NotSubmitting then s
      else
        let pendingCount = getPendingCount s
        in if 0 < pendingCount
           then (case waitForAll s of
                   None \<Rightarrow> s\<lparr> submission := Posted \<rparr>
                 | Some snapshot \<Rightarrow> s\<lparr> submission := AwaitingDrain snapshot \<rparr>)
           else s\<lparr> submission := Posted \<rparr>)"

definition resume_submit :: "client \<Rightarrow> client" where
  "resume_submit s =
     (case submission s of
        AwaitingDrain snapshot \<Rightarrow>
          if allSettled snapshot s then s\<lparr> submission := Posted \<rparr> else s
      | _ \<Rightarrow> s)"

subsection \<open>The event loop\<close>

text \<open>
  \<open>Advance d\<close>: \<open>d\<close> milliseconds pass; the armed timer runs at its deadline if that falls
  within them.
\<close>

datatype event =
    DataAvailable blob
  | StopRecording
  | StopEvent
  | Advance nat
  | FetchDone nat fetch_result
  | ForeignSettles nat settlement
  | SubmitFinal

definition advance :: "nat \<Rightarrow> client \<Rightarrow> client" where
  "advance d s =
     (case onstopTimeout s of
        None \<Rightarrow> s\<lparr> clock := clock s + d \<rparr>
      | Some deadline \<Rightarrow>
          if deadline \<le> clock s + d
          then (onstopTimeout_fires (s\<lparr> clock := max (clock s) deadline \<rparr>))\<lparr> clock := clock s + d \<rparr>
          else s\<lparr> clock := clock s + d \<rparr>)"

fun callback :: "event \<Rightarrow> client \<Rightarrow> client" where
  "callback (DataAvailable data) s = (if mediaRecorder s = None then s else ondataavailable data s)"
| "callback StopRecording s = stopRecording s"
| "callback StopEvent s = onstop_event s"
| "callback (Advance d) s = advance d s"
| "callback (FetchDone p r) s = fetch_done p r s"
| "callback (ForeignSettles p out) s = foreign_settles p out s"
| "callback SubmitFinal s = submitFinalResponses s"

definition step :: "event \<Rightarrow> client \<Rightarrow> client" where
  "step e s = resume_submit (run_microtasks (callback e s))"

fun run :: "event list \<Rightarrow> client \<Rightarrow> client" where
  "run [] s = s"
| "run (e # es) s = run es (step e s)"

section \<open>Example states\<close>

subsection \<open>Client\<close>

definition fresh_page :: client where
  "fresh_page = \<lparr> screenChunks = [], mediaRecorder = None, onstopFired = False,
                   onstopWrapped = False, onstopTimeout = None, isSaving = False,
                   saveComplete = False, error = [], pendingUploads = [], next_promise = 0,
                   settled = [], finally_jobs = [], in_flight = [], submission = NotSubmitting,
                   clock = 0, saveLog = [], addLog = [] \<rparr>"

text \<open>A recorder that has received one chunk of three bytes, and one that has received none.\<close>

definition recording_client :: client where
  "recording_client = run [DataAvailable [1, 2, 3]] (mount (Some True) True fresh_page)"

definition silent_client :: client where
  "silent_client = mount (Some True) True fresh_page"

definition upload_ok :: fetch_result where
  "upload_ok = Answered True ''{}'' True"

definition upload_timeout :: fetch_result where
  "upload_timeout = Failed \<lparr> name = ''AbortError'', message = ''The operation was aborted.'' \<rparr>"

text \<open>
  The recorder's upload (promise 0) is in flight, and the queue also holds promise 5,
  registered by another task's recorder.
\<close>

definition busy_client :: client where
  "busy_client = (run [StopRecording, StopEvent] recording_client)
                   \<lparr> pendingUploads := [0, 5], next_promise := 6 \<rparr>"

subsection \<open>Server\<close>

definition demo_headers :: headers where
  "demo_headers = \<lparr> x_forwarded_for = Some ''10.0.0.7'', x_real_ip = None, user_agent = None,
                     referer = None, referrer = None \<rparr>"

definition demo_runtime :: runtime where
  "demo_runtime = \<lparr> fresh_id = ''USR-NEW'', now_iso = ''2025-01-01T00:00:00Z'' \<rparr>"

definition demo_parse :: "string \<Rightarrow> int option" where
  "demo_parse s = (if s = ''7'' then Some 7 else if s = ''42'' then Some 42 else None)"

definition demo_env :: "bool \<Rightarrow> upload_env" where
  "demo_env fails = \<lparr> audioStoreFails = fails, screenStoreFails = fails, kvSetFails = False,
                       transcribeAudio = (\<lambda>b. []), parseInt = demo_parse,
                       upload_time = ''2025-01-01T00:00:00Z'' \<rparr>"

definition demo_upload :: "blob option \<Rightarrow> blob \<Rightarrow> upload_request" where
  "demo_upload audio screen = \<lparr> u_participantId = Some ''P7'', u_taskNumber = Some ''7'',
                                 u_audioBlob = audio, u_screenBlob = Some screen,
                                 u_transcript = None, u_duration = Some ''42'' \<rparr>"

definition demo_recording :: "string option \<Rightarrow> recording" where
  "demo_recording audio = \<lparr> r_participantId = ''P7'', r_taskNumber = Some 7, r_audioPath = audio,
                             r_screenPath = Some ''P7/task7_screen.webm'', r_transcript = [],
                             r_duration = Some 42, r_timestamp = ''2025-01-01T00:00:00Z'' \<rparr>"

definition demo_result :: "string option \<Rightarrow> nat \<Rightarrow> nat \<Rightarrow> upload_result" where
  "demo_result audio audioSize screenSize =
     \<lparr> res_audioPath = audio, res_screenPath = Some ''P7/task7_screen.webm'',
       res_audioSize = audioSize, res_screenSize = screenSize,
       res_transcriptGenerated = False, res_transcriptLength = 0 \<rparr>"

definition empty_server :: server where
  "empty_server = \<lparr> kv = [], files = [] \<rparr>"

definition server_with_recording :: "string option \<Rightarrow> storage \<Rightarrow> server" where
  "server_with_recording audio fs =
     \<lparr> kv = [(''recording:P7:task7'', RecordingV (demo_recording audio))], files = fs \<rparr>"

definition p7 :: "bool \<Rightarrow> participant" where
  "p7 done = \<lparr> p_participantId = ''P7'', p_ipAddress = ''10.0.0.7'', p_startedAt = ''t0'',
               p_submitted = done, p_userAgent = ''unknown'', p_referrer = Some ''Direct'',
               p_isFallback = False, p_responses = (if done then Some ''{}'' else None),
               p_submittedAt = (if done then Some ''t1'' else None) \<rparr>"

text \<open>Participant P7 leaves during task 8, with the recording of task 7 uploaded.\<close>

definition exit_server :: server where
  "exit_server = \<lparr> kv = [(''participant:P7'', ParticipantV (p7 False)),
                          (''recording:P7:task7'', RecordingV (demo_recording None))],
                    files = [(''P7/task7_screen.webm'', [1, 2, 3])] \<rparr>"

definition submitted_server :: server where
  "submitted_server = \<lparr> kv = [(''participant:P7'', ParticipantV (p7 True))], files = [] \<rparr>"

definition resubmit :: submit_request where
  "resubmit = \<lparr> sr_participantId = ''P7'', sr_responses = Some ''{}'' \<rparr>"

section \<open>Invariants used in the proofs\<close>

text \<open>
  The barrier of a submission that took the snapshot \<open>S\<close>: either it still waits and some
  promise of \<open>S\<close> is unsettled, or the request has been sent and all of \<open>S\<close> has settled.
\<close>

definition drained :: "nat list \<Rightarrow> client \<Rightarrow> bool" where
  "drained S s \<longleftrightarrow> (submission s = AwaitingDrain S \<and> \<not> allSettled S s)
                  \<or> (submission s = Posted \<and> allSettled S s)"

text \<open>
  The stop timer with deadline \<open>dl\<close>, on a recorder that \<^verbatim>\<open>stopRecording\<close> has made
  inactive. \<open>armed\<close>: the deadline lies ahead and the timer is set. \<open>fired\<close>: the timer
  has run; the logs at that moment were \<open>L\<close> and \<open>A\<close>, and its save (promise \<open>p\<close>, blob
  \<open>b\<close>, stamped \<open>dl\<close>) and its registration follow them. With \<open>once\<close>, which stands for
  "\<^verbatim>\<open>stopRecording\<close> is not called again", the logs hold nothing else.
\<close>

definition armed ::
  "bool \<Rightarrow> nat \<Rightarrow> (nat \<times> nat \<times> blob) list \<Rightarrow> nat list \<Rightarrow> client \<Rightarrow> bool" where
  "armed once dl L A s \<longleftrightarrow>
     clock s < dl \<and> onstopTimeout s = Some dl \<and> mediaRecorder s = Some Inactive
     \<and> (once \<longrightarrow> saveLog s = L \<and> addLog s = A)"

definition fired ::
  "bool \<Rightarrow> nat \<Rightarrow> nat \<Rightarrow> blob \<Rightarrow> (nat \<times> nat \<times> blob) list \<Rightarrow> nat list \<Rightarrow> client \<Rightarrow> bool" where
  "fired once dl p b L A s \<longleftrightarrow>
     dl \<le> clock s \<and> onstopTimeout s = None \<and> mediaRecorder s = Some Inactive
     \<and> prefix (L @ [(dl, p, b)]) (saveLog s) \<and> prefix (A @ [p]) (addLog s)
     \<and> (once \<longrightarrow> saveLog s = L @ [(dl, p, b)] \<and> addLog s = A @ [p])"

text \<open>A promise that has been handed to the queue is in the in-flight set until it settles.\<close>

definition registered :: "nat \<Rightarrow> client \<Rightarrow> bool" where
  "registered p s \<longleftrightarrow> p \<in> set (pendingUploads s) \<or> is_settled p s"

text \<open>
  The state of the timer after any events without a stop event: still armed, or run at
  the step number \<open>k\<close>, which was an advance of the clock across the deadline.
\<close>

definition crossed :: "bool \<Rightarrow> nat \<Rightarrow> client \<Rightarrow> event list \<Rightarrow> nat \<Rightarrow> bool" where
  "crossed once dl s1 es k \<longleftrightarrow>
     k < length es
     \<and> clock (run (take k es) s1) < dl
     \<and> (\<exists>d. es ! k = Advance d)
     \<and> next_promise (run (take k es) s1)
          \<in> set (pendingUploads (callback (es ! k) (run (take k es) s1)))
     \<and> (concat (screenChunks (run (take k es) s1)) \<noteq> [] \<longrightarrow>
          (next_promise (run (take k es) s1), concat (screenChunks (run (take k es) s1)))
            \<in> set (in_flight (callback (es ! k) (run (take k es) s1))))
     \<and> fired once dl (next_promise (run (take k es) s1))
          (concat (screenChunks (run (take k es) s1)))
          (saveLog (run (take k es) s1)) (addLog (run (take k es) s1)) (run es s1)
     \<and> registered (next_promise (run (take k es) s1)) (run es s1)
     \<and> (once \<longrightarrow> saveLog (run (take k es) s1) = saveLog s1
                \<and> addLog (run (take k es) s1) = addLog s1)"

section \<open>Properties of the backend\<close>

subsection \<open>The table and the bucket\<close>

lemma map_of_upsert: "map_of (upsert k v rows) k' = (if k' = k then Some v else map_of rows k')"
  by (induction rows) auto

lemma keys_upsert: "set (map fst (upsert k v rows)) = insert k (set (map fst rows))"
  by (induction k v rows rule: upsert.induct) (simp_all add: insert_commute)

lemma distinct_upsert: "distinct (map fst rows) \<Longrightarrow> distinct (map fst (upsert k v rows))"
proof (induction rows)
  case Nil
  then show ?case by simp
next
  case (Cons row rows)
  obtain k' v' where row: "row = (k', v')" by (cases row)
  show ?case
  proof (cases "k' = k")
    case True
    with Cons.prems row show ?thesis by simp
  next
    case False
    have "k' \<notin> set (map fst (upsert k v rows))"
      using Cons.prems row False by (simp only: keys_upsert) simp
    with Cons row False show ?thesis by simp
  qed
qed

lemma filter_key_absent: "k \<notin> set (map fst rows) \<Longrightarrow> filter (\<lambda>row. fst row = k) rows = []"
  by (induction rows) auto

lemma filter_upsert:
  "distinct (map fst rows) \<Longrightarrow> filter (\<lambda>row. fst row = k) (upsert k v rows) = [(k, v)]"
  by (induction rows) (auto simp: filter_key_absent)

lemma length_upsert_present: "k \<in> set (map fst rows) \<Longrightarrow> length (upsert k v rows) = length rows"
  by (induction rows) force+

lemma kv_get_getByPrefix:
  "kv_get (pfx @ k) rows = Some v \<Longrightarrow> v \<in> set (kv_getByPrefix pfx rows)"
  unfolding kv_get_def kv_getByPrefix_def
  by (force dest: map_of_SomeD)

subsection \<open>Uploads\<close>

lemma audio_screen_differ: "audio_path p t \<noteq> screen_path p t"
  by (simp add: audio_path_def screen_path_def)

lemma upload_audio_Inl: "upload_audio env p t b fs = Inl e \<Longrightarrow> \<exists>n m. e = UploadError n m"
  by (auto simp: upload_audio_def Let_def split: if_splits)

lemma upload_screen_Inl: "upload_screen env p t b fs = Inl e \<Longrightarrow> \<exists>n m. e = UploadError n m"
  by (auto simp: upload_screen_def Let_def split: if_splits)

lemma upload_recording_success:
  assumes "upload_recording env req st = (UploadSuccess res, st')"
  shows "\<exists>pid tn gen fs1.
           u_participantId req = Some pid \<and> pid \<noteq> [] \<and> u_taskNumber req = Some tn \<and> tn \<noteq> [] \<and>
           upload_audio env pid tn (u_audioBlob req) (files st) = Inr (res_audioPath res, gen, fs1) \<and>
           upload_screen env pid tn (u_screenBlob req) fs1 = Inr (res_screenPath res, files st') \<and>
           kv st' = kv_set (recording_key pid tn)
                      (RecordingV (upload_metadata env req (res_audioPath res) (res_screenPath res) gen))
                      (kv st)"
  using assms
  by (auto simp: upload_recording_def falsy_def Let_def
        split: if_splits sum.splits prod.splits option.splits
        dest: upload_audio_Inl upload_screen_Inl)

text \<open>
  C6. After two successful uploads for the same participant and task number, the table
  holds exactly one recording row for that key, the one written by the second upload, and
  the second upload did not add a row; both uploads compute the same screen path, and the
  object at that path is the second blob when the second write was accepted. The table's
  keys are taken to be unique before the first upload.
\<close>

theorem reupload_overwrites:
  assumes keys: "distinct (map fst (kv st))"
    and same: "u_participantId req1 = Some pid" "u_participantId req2 = Some pid"
              "u_taskNumber req1 = Some tn" "u_taskNumber req2 = Some tn"
    and up1: "upload_recording env1 req1 st = (UploadSuccess res1, st1)"
    and up2: "upload_recording env2 req2 st1 = (UploadSuccess res2, st2)"
  shows "(\<exists>md. filter (\<lambda>row. fst row = recording_key pid tn) (kv st2)
                 = [(recording_key pid tn, RecordingV md)]
              \<and> r_audioPath md = res_audioPath res2
              \<and> r_screenPath md = res_screenPath res2
              \<and> r_timestamp md = upload_time env2)
       \<and> length (kv st2) = length (kv st1)
       \<and> (0 < blob_size (u_screenBlob req1) \<and> 0 < blob_size (u_screenBlob req2)
            \<longrightarrow> res_screenPath res1 = res_screenPath res2)
       \<and> (0 < blob_size (u_screenBlob req2) \<and> \<not> screenStoreFails env2
            \<longrightarrow> map_of (files st2) (screen_path pid tn) = u_screenBlob req2)"
proof -
  from upload_recording_success [OF up1] same obtain gen1 fs1 where
    s1: "upload_screen env1 pid tn (u_screenBlob req1) fs1 = Inr (res_screenPath res1, files st1)"
    and k1: "kv st1 = kv_set (recording_key pid tn)
               (RecordingV (upload_metadata env1 req1 (res_audioPath res1) (res_screenPath res1) gen1))
               (kv st)"
    by auto
  from upload_recording_success [OF up2] same obtain gen2 fs2 where
    s2: "upload_screen env2 pid tn (u_screenBlob req2) fs2 = Inr (res_screenPath res2, files st2)"
    and k2: "kv st2 = kv_set (recording_key pid tn)
               (RecordingV (upload_metadata env2 req2 (res_audioPath res2) (res_screenPath res2) gen2))
               (kv st1)"
    by auto
  have d1: "distinct (map fst (kv st1))"
    using keys k1 by (simp add: kv_set_def distinct_upsert)
  have in1: "recording_key pid tn \<in> set (map fst (kv st1))"
    unfolding k1 kv_set_def keys_upsert by simp
  have one: "filter (\<lambda>row. fst row = recording_key pid tn) (kv st2)
               = [(recording_key pid tn,
                   RecordingV (upload_metadata env2 req2 (res_audioPath res2) (res_screenPath res2) gen2))]"
    unfolding k2 kv_set_def using d1 by (rule filter_upsert)
  have len: "length (kv st2) = length (kv st1)"
    unfolding k2 kv_set_def using in1 by (rule length_upsert_present)
  have path: "0 < blob_size (u_screenBlob req1) \<and> 0 < blob_size (u_screenBlob req2)
            \<longrightarrow> res_screenPath res1 = res_screenPath res2"
    using s1 s2 by (auto simp: upload_screen_def Let_def split: if_splits)
  have stored: "0 < blob_size (u_screenBlob req2) \<and> \<not> screenStoreFails env2
            \<longrightarrow> map_of (files st2) (screen_path pid tn) = u_screenBlob req2"
  proof
    assume h: "0 < blob_size (u_screenBlob req2) \<and> \<not> screenStoreFails env2"
    then obtain b where b: "u_screenBlob req2 = Some b"
      by (cases "u_screenBlob req2") (simp_all add: blob_size_def)
    have "files st2 = storage_upload (screen_path pid tn) b fs2"
      using s2 h b by (simp add: upload_screen_def Let_def split: if_splits)
    then show "map_of (files st2) (screen_path pid tn) = u_screenBlob req2"
      by (simp add: storage_upload_def map_of_upsert b)
  qed
  from one len path stored show ?thesis
    by (simp add: upload_metadata_def)
qed

text \<open>
  C6 on an example: task 7 of participant P7 is uploaded twice, first two bytes, then
  three.
\<close>

theorem reupload_overwrites_witness:
  "distinct (map fst (kv empty_server))
   \<and> upload_recording (demo_env False) (demo_upload None [1, 2]) empty_server
       = (UploadSuccess (demo_result None 0 2),
          server_with_recording None [(''P7/task7_screen.webm'', [1, 2])])
   \<and> upload_recording (demo_env False) (demo_upload None [9, 9, 9])
         (server_with_recording None [(''P7/task7_screen.webm'', [1, 2])])
       = (UploadSuccess (demo_result None 0 3),
          server_with_recording None [(''P7/task7_screen.webm'', [9, 9, 9])])
   \<and> filter (\<lambda>row. fst row = recording_key ''P7'' ''7'')
         (kv (server_with_recording None [(''P7/task7_screen.webm'', [9, 9, 9])]))
       = [(recording_key ''P7'' ''7'', RecordingV (demo_recording None))]
   \<and> length (kv (server_with_recording None [(''P7/task7_screen.webm'', [9, 9, 9])]))
       = length (kv (server_with_recording None [(''P7/task7_screen.webm'', [1, 2])]))
   \<and> map_of (files (server_with_recording None [(''P7/task7_screen.webm'', [9, 9, 9])]))
         (screen_path ''P7'' ''7'') = Some [9, 9, 9]"
proof -
  have d: "distinct (map fst (kv empty_server))"
    by (simp add: empty_server_def)
  have ids: "u_participantId (demo_upload None [1, 2]) = Some ''P7''"
            "u_participantId (demo_upload None [9, 9, 9]) = Some ''P7''"
            "u_taskNumber (demo_upload None [1, 2]) = Some ''7''"
            "u_taskNumber (demo_upload None [9, 9, 9]) = Some ''7''"
    by (simp_all add: demo_upload_def)
  have up1: "upload_recording (demo_env False) (demo_upload None [1, 2]) empty_server
       = (UploadSuccess (demo_result None 0 2),
          server_with_recording None [(''P7/task7_screen.webm'', [1, 2])])"
    by (simp add: upload_recording_def demo_env_def demo_upload_def empty_server_def
          server_with_recording_def demo_result_def demo_recording_def falsy_def upload_audio_def
          upload_screen_def blob_size_def maxSize_def Let_def kv_set_def upload_metadata_def
          screen_path_def audio_path_def recording_key_def storage_upload_def parse_opt_def
          demo_parse_def or_else_def)
  have up2: "upload_recording (demo_env False) (demo_upload None [9, 9, 9])
         (server_with_recording None [(''P7/task7_screen.webm'', [1, 2])])
       = (UploadSuccess (demo_result None 0 3),
          server_with_recording None [(''P7/task7_screen.webm'', [9, 9, 9])])"
    by (simp add: upload_recording_def demo_env_def demo_upload_def empty_server_def
          server_with_recording_def demo_result_def demo_recording_def falsy_def upload_audio_def
          upload_screen_def blob_size_def maxSize_def Let_def kv_set_def upload_metadata_def
          screen_path_def audio_path_def recording_key_def storage_upload_def parse_opt_def
          demo_parse_def or_else_def)
  have row: "filter (\<lambda>row. fst row = recording_key ''P7'' ''7'')
         (kv (server_with_recording None [(''P7/task7_screen.webm'', [9, 9, 9])]))
       = [(recording_key ''P7'' ''7'', RecordingV (demo_recording None))]"
    by code_simp
  have sizes: "0 < blob_size (u_screenBlob (demo_upload None [9, 9, 9]))"
              "\<not> screenStoreFails (demo_env False)"
              "u_screenBlob (demo_upload None [9, 9, 9]) = Some [9, 9, 9]"
    by (simp_all add: demo_upload_def demo_env_def blob_size_def)
  from reupload_overwrites [OF d ids up1 up2] sizes d up1 up2 row show ?thesis
    by simp
qed

text \<open>
  C10. For a request that names participant and task and whose blobs are within the size
  limit, the handler answers success and stores the metadata row whether or not the object
  store accepted the files: the row and the answer carry the computed audio and screen
  paths, while after a refused write the bucket holds at that path what it held before
  (nothing, if nothing was there). Only a failing write of the metadata row itself makes
  the handler answer an error.
\<close>

theorem upload_recording_reports_success_when_store_write_fails:
  assumes ids: "u_participantId req = Some pid" "pid \<noteq> []" "u_taskNumber req = Some tn" "tn \<noteq> []"
    and sizes: "blob_size (u_audioBlob req) \<le> maxSize" "blob_size (u_screenBlob req) \<le> maxSize"
    and kv_ok: "\<not> kvSetFails env"
  shows "\<exists>res md st'.
           upload_recording env req st = (UploadSuccess res, st')
         \<and> kv_get (recording_key pid tn) (kv st') = Some (RecordingV md)
         \<and> r_audioPath md = res_audioPath res
         \<and> r_screenPath md = res_screenPath res
         \<and> (0 < blob_size (u_audioBlob req) \<longrightarrow> res_audioPath res = Some (audio_path pid tn))
         \<and> (0 < blob_size (u_screenBlob req) \<longrightarrow> res_screenPath res = Some (screen_path pid tn))
         \<and> (audioStoreFails env \<longrightarrow>
               map_of (files st') (audio_path pid tn) = map_of (files st) (audio_path pid tn))
         \<and> (screenStoreFails env \<longrightarrow>
               map_of (files st') (screen_path pid tn) = map_of (files st) (screen_path pid tn))
         \<and> (audioStoreFails env \<and> screenStoreFails env \<longrightarrow> files st' = files st)"
  using assms audio_screen_differ [of pid tn]
  by (auto simp: upload_recording_def falsy_def Let_def upload_audio_def upload_screen_def
        upload_metadata_def kv_get_def kv_set_def storage_upload_def map_of_upsert)

text \<open>
  C10 on an example: both writes to the bucket are refused; the answer is a success, the
  row records both paths and the bucket stays empty.
\<close>

theorem upload_recording_reports_success_when_store_write_fails_witness:
  "audioStoreFails (demo_env True) \<and> screenStoreFails (demo_env True)
   \<and> upload_recording (demo_env True) (demo_upload (Some [5]) [1, 2, 3]) empty_server
       = (UploadSuccess (demo_result (Some ''P7/task7_audio.webm'') 1 3),
          server_with_recording (Some ''P7/task7_audio.webm'') [])
   \<and> kv_get (recording_key ''P7'' ''7'')
         (kv (server_with_recording (Some ''P7/task7_audio.webm'') []))
       = Some (RecordingV (demo_recording (Some ''P7/task7_audio.webm'')))
   \<and> r_screenPath (demo_recording (Some ''P7/task7_audio.webm'')) = Some (screen_path ''P7'' ''7'')
   \<and> files (server_with_recording (Some ''P7/task7_audio.webm'') []) = files empty_server"
proof -
  have ids: "u_participantId (demo_upload (Some [5]) [1, 2, 3]) = Some ''P7''" "''P7'' \<noteq> []"
            "u_taskNumber (demo_upload (Some [5]) [1, 2, 3]) = Some ''7''" "''7'' \<noteq> []"
    by (simp_all add: demo_upload_def)
  have sizes: "blob_size (u_audioBlob (demo_upload (Some [5]) [1, 2, 3])) \<le> maxSize"
              "blob_size (u_screenBlob (demo_upload (Some [5]) [1, 2, 3])) \<le> maxSize"
    by (simp_all add: demo_upload_def blob_size_def maxSize_def)
  have env: "\<not> kvSetFails (demo_env True)" "audioStoreFails (demo_env True)"
            "screenStoreFails (demo_env True)"
    by (simp_all add: demo_env_def)
  have run: "upload_recording (demo_env True) (demo_upload (Some [5]) [1, 2, 3]) empty_server
       = (UploadSuccess (demo_result (Some ''P7/task7_audio.webm'') 1 3),
          server_with_recording (Some ''P7/task7_audio.webm'') [])"
    by (simp add: upload_recording_def demo_env_def demo_upload_def empty_server_def
          server_with_recording_def demo_result_def demo_recording_def falsy_def upload_audio_def
          upload_screen_def blob_size_def maxSize_def Let_def kv_set_def upload_metadata_def
          screen_path_def audio_path_def recording_key_def storage_upload_def parse_opt_def
          demo_parse_def or_else_def)
  have row: "kv_get (recording_key ''P7'' ''7'')
         (kv (server_with_recording (Some ''P7/task7_audio.webm'') []))
       = Some (RecordingV (demo_recording (Some ''P7/task7_audio.webm'')))"
            "r_screenPath (demo_recording (Some ''P7/task7_audio.webm'')) = Some (screen_path ''P7'' ''7'')"
            "files (server_with_recording (Some ''P7/task7_audio.webm'') []) = files empty_server"
    by code_simp+
  from upload_recording_reports_success_when_store_write_fails
         [OF ids sizes env(1), of empty_server] env run row
  show ?thesis by simp
qed

subsection \<open>Leaving and submitting\<close>

text \<open>
  C8. The participant's exit removes the stored files of every recording it finds, but
  deletes the recording rows of tasks 1 to 6 only: after participant P7 leaves with the
  recording of task 7 uploaded, the answer is a success, the file is gone from the
  bucket, and the row \<^verbatim>\<open>recording:P7:task7\<close> is still in the table.
\<close>

theorem delete_participant_keeps_task7_record:
  "delete_participant ''P7'' exit_server
     = (DeleteSuccess,
        \<lparr> kv = [(''recording:P7:task7'', RecordingV (demo_recording None))], files = [] \<rparr>)"
  by code_simp

text \<open>
  C7 fails as stated: participant P7 is stored as submitted, and a further submission
  for P7 is answered with success.
\<close>

theorem resubmission_accepted_counterexample:
  "kv_get ''participant:P7'' (kv submitted_server) = Some (ParticipantV (p7 True))
   \<and> p_submitted (p7 True)
   \<and> fst (submit_response demo_runtime demo_headers resubmit submitted_server) = SubmitSuccess"
  by code_simp

text \<open>
  C7 as amended. Once a participant record is marked submitted, a later check-participant
  request from that record's client address is refused by the scan of the stored
  participants, and nothing is stored for it. The submit endpoint makes no such lookup:
  every submission that names a participant and carries answers is accepted, and the
  stored record is marked submitted afterwards.
\<close>

theorem prior_submission_gate:
  "(kv_get (''participant:'' @ pid) (kv st) = Some (ParticipantV p)
       \<and> p_submitted p \<and> p_ipAddress p = getClientIP h
     \<longrightarrow> (\<exists>msg. check_participant rt h st = (CheckBlocked msg, st)))
   \<and> (sr_participantId req \<noteq> [] \<and> sr_responses req \<noteq> None
     \<longrightarrow> (\<exists>st' p'. submit_response rt h req st = (SubmitSuccess, st')
              \<and> kv_get (''participant:'' @ sr_participantId req) (kv st') = Some (ParticipantV p')
              \<and> p_submitted p'))"
proof (intro conjI impI)
  assume a: "kv_get (''participant:'' @ pid) (kv st) = Some (ParticipantV p)
       \<and> p_submitted p \<and> p_ipAddress p = getClientIP h"
  then have "ParticipantV p \<in> set (kv_getByPrefix ''participant:'' (kv st))"
    by (blast intro: kv_get_getByPrefix)
  with a have "hasSubmitted (getClientIP h) (kv_getByPrefix ''participant:'' (kv st))"
    unfolding hasSubmitted_def list_ex_iff by force
  then show "\<exists>msg. check_participant rt h st = (CheckBlocked msg, st)"
    by (simp add: check_participant_def Let_def)
next
  assume "sr_participantId req \<noteq> [] \<and> sr_responses req \<noteq> None"
  then show "\<exists>st' p'. submit_response rt h req st = (SubmitSuccess, st')
              \<and> kv_get (''participant:'' @ sr_participantId req) (kv st') = Some (ParticipantV p')
              \<and> p_submitted p'"
    by (auto simp: submit_response_def Let_def kv_get_def kv_set_def map_of_upsert
          split: option.splits kv_value.splits)
qed

text \<open>C7 as amended, on the example of the submitted participant P7.\<close>

theorem prior_submission_gate_witness:
  "kv_get (''participant:'' @ ''P7'') (kv submitted_server) = Some (ParticipantV (p7 True))
   \<and> p_submitted (p7 True) \<and> p_ipAddress (p7 True) = getClientIP demo_headers
   \<and> check_participant demo_runtime demo_headers submitted_server
       = (CheckBlocked
            ''You have already completed this test. Thank you for your participation!'',
          submitted_server)
   \<and> sr_participantId resubmit \<noteq> [] \<and> sr_responses resubmit \<noteq> None
   \<and> fst (submit_response demo_runtime demo_headers resubmit submitted_server) = SubmitSuccess"
proof -
  have h: "kv_get (''participant:'' @ ''P7'') (kv submitted_server) = Some (ParticipantV (p7 True))
             \<and> p_submitted (p7 True) \<and> p_ipAddress (p7 True) = getClientIP demo_headers"
          "sr_participantId resubmit \<noteq> [] \<and> sr_responses resubmit \<noteq> None"
    by code_simp+
  have run: "check_participant demo_runtime demo_headers submitted_server
       = (CheckBlocked
            ''You have already completed this test. Thank you for your participation!'',
          submitted_server)"
    by code_simp
  from prior_submission_gate
         [of "''P7''" submitted_server "p7 True" demo_headers demo_runtime resubmit] h run
  show ?thesis by auto
qed

section \<open>Properties of the client\<close>

lemma run_append: "run (es @ es') s = run es' (run es s)"
  by (induction es arbitrary: s) simp_all

subsection \<open>The save routine\<close>

lemma fetch_catch_throws: "\<exists>e'. fetch_catch e = Inl e'"
  by (simp add: fetch_catch_def)

lemma inner_try_ok: "(\<exists>u. try_catch (fetch_try r) fetch_catch = Inr u) \<longleftrightarrow> fetch_try r = Inr ()"
proof (cases "fetch_try r")
  case (Inl e)
  with fetch_catch_throws [of e] show ?thesis by (auto simp: try_catch_def)
next
  case (Inr u)
  then show ?thesis by (simp add: try_catch_def)
qed

lemma saveRecordings_resume_fst: "fst (saveRecordings_resume r s) = Inr ()"
  by (simp add: saveRecordings_resume_def Let_def try_catch_def split: sum.splits)

lemma saveRecordings_resume_snd:
  "snd (saveRecordings_resume r s) =
     (if fetch_try r = Inr () then s\<lparr> isSaving := False, saveComplete := True \<rparr>
      else s\<lparr> error := ''Failed to save recording'', isSaving := False \<rparr>)"
proof (cases "try_catch (fetch_try r) fetch_catch")
  case (Inl e)
  with inner_try_ok [of r] show ?thesis
    by (auto simp: saveRecordings_resume_def Let_def)
next
  case (Inr u)
  with inner_try_ok [of r] show ?thesis
    by (auto simp: saveRecordings_resume_def Let_def)
qed

lemma fetch_done_eq:
  "fetch_done p r s =
     (case map_of (in_flight s) p of
        None \<Rightarrow> s
      | Some b \<Rightarrow> settle p Fulfilled
                   (snd (saveRecordings_resume r (s\<lparr> in_flight := filter (\<lambda>f. fst f \<noteq> p) (in_flight s) \<rparr>))))"
  by (simp add: fetch_done_def settlement_of_def case_prod_beta saveRecordings_resume_fst
        split: option.splits)

subsection \<open>Settlements only accumulate\<close>

lemma settled_addUpload [simp]: "settled (addUpload p s) = settled s"
  by (simp add: addUpload_def Let_def)

lemma submission_addUpload [simp]: "submission (addUpload p s) = submission s"
  by (simp add: addUpload_def Let_def)

lemma settled_save_and_enqueue: "prefix (settled s) (settled (save_and_enqueue s))"
  by (simp add: save_and_enqueue_def saveRecordings_def Let_def settle_def)

lemma submission_save_and_enqueue [simp]: "submission (save_and_enqueue s) = submission s"
  by (simp add: save_and_enqueue_def saveRecordings_def Let_def settle_def)

lemma prefix_settled_upd:
  "settled s' = settled s \<Longrightarrow> prefix (settled s) (settled (save_and_enqueue s'))"
  using settled_save_and_enqueue [of s'] by simp

lemma settled_callback: "prefix (settled s) (settled (callback e s))"
proof (cases e)
  case (DataAvailable b)
  then show ?thesis by (simp add: ondataavailable_def)
next
  case StopRecording
  then show ?thesis by (simp add: stopRecording_def Let_def prefix_settled_upd)
next
  case StopEvent
  then show ?thesis
    by (simp add: onstop_event_def onstop_wrapper_def onstop_original_def Let_def prefix_settled_upd
          split: option.splits)
next
  case (Advance d)
  then show ?thesis
    by (simp add: advance_def onstopTimeout_fires_def prefix_settled_upd split: option.splits)
next
  case (FetchDone p r)
  then show ?thesis
    by (simp add: fetch_done_eq saveRecordings_resume_snd settle_def split: option.splits)
next
  case (ForeignSettles p out)
  then show ?thesis by (simp add: foreign_settles_def settle_def)
next
  case SubmitFinal
  then show ?thesis
    by (simp add: submitFinalResponses_def Let_def split: option.splits)
qed

lemma submission_callback:
  "e \<noteq> SubmitFinal \<or> submission s \<noteq> NotSubmitting \<Longrightarrow> submission (callback e s) = submission s"
proof (cases e)
  case (DataAvailable b)
  then show ?thesis by (simp add: ondataavailable_def)
next
  case StopRecording
  then show ?thesis by (simp add: stopRecording_def Let_def)
next
  case StopEvent
  then show ?thesis
    by (simp add: onstop_event_def onstop_wrapper_def onstop_original_def Let_def
          split: option.splits)
next
  case (Advance d)
  then show ?thesis
    by (simp add: advance_def onstopTimeout_fires_def split: option.splits)
next
  case (FetchDone p r)
  then show ?thesis
    by (simp add: fetch_done_eq saveRecordings_resume_snd settle_def split: option.splits)
next
  case (ForeignSettles p out)
  then show ?thesis by (simp add: foreign_settles_def settle_def)
next
  case SubmitFinal
  assume "e \<noteq> SubmitFinal \<or> submission s \<noteq> NotSubmitting"
  with SubmitFinal show ?thesis
    by (simp add: submitFinalResponses_def)
qed

subsection \<open>The drain barrier\<close>

lemma settled_run_microtasks [simp]: "settled (run_microtasks s) = settled s"
  by (simp add: run_microtasks_def)

lemma submission_run_microtasks [simp]: "submission (run_microtasks s) = submission s"
  by (simp add: run_microtasks_def)

lemma settled_resume_submit [simp]: "settled (resume_submit s) = settled s"
  by (simp add: resume_submit_def split: submit_state.splits)

lemma is_settled_mono: "prefix (settled s) (settled s') \<Longrightarrow> is_settled p s \<Longrightarrow> is_settled p s'"
  by (auto simp: is_settled_def dest: set_mono_prefix)

lemma allSettled_mono: "prefix (settled s) (settled s') \<Longrightarrow> allSettled S s \<Longrightarrow> allSettled S s'"
  by (auto simp: allSettled_def list_all_iff intro: is_settled_mono)

lemma allSettled_resume [simp]: "allSettled S (resume_submit s) = allSettled S s"
  by (simp add: allSettled_def is_settled_def)

lemma resume_submit_drained:
  assumes "submission s = AwaitingDrain S \<or> (submission s = Posted \<and> allSettled S s)"
  shows "drained S (resume_submit s)"
proof (cases "allSettled S s")
  case True
  with assms show ?thesis
    by (auto simp: drained_def) (simp_all add: resume_submit_def)
next
  case False
  with assms show ?thesis
    by (auto simp: drained_def) (simp_all add: resume_submit_def)
qed

lemma drained_step:
  assumes d: "drained S s"
  shows "drained S (step e s)"
proof -
  from d have ns: "submission s \<noteq> NotSubmitting" by (auto simp: drained_def)
  let ?c = "run_microtasks (callback e s)"
  have sub: "submission ?c = submission s"
    using ns by (simp add: submission_callback)
  have pre: "prefix (settled s) (settled ?c)"
    by (simp add: settled_callback)
  from d sub allSettled_mono [OF pre]
  have "submission ?c = AwaitingDrain S \<or> (submission ?c = Posted \<and> allSettled S ?c)"
    by (auto simp: drained_def)
  then show ?thesis unfolding step_def by (rule resume_submit_drained)
qed

lemma drained_run: "drained S s \<Longrightarrow> drained S (run es s)"
  by (induction es arbitrary: s) (simp_all add: drained_step)

lemma drained_submit:
  assumes "submission s = NotSubmitting"
  shows "drained (pendingUploads s) (step SubmitFinal s)"
proof (cases "pendingUploads s = []")
  case True
  with assms have "submission (run_microtasks (callback SubmitFinal s)) = Posted"
    by (simp add: submitFinalResponses_def getPendingCount_def)
  moreover from True have "allSettled (pendingUploads s) (run_microtasks (callback SubmitFinal s))"
    by (simp add: allSettled_def)
  ultimately show ?thesis unfolding step_def by (simp add: resume_submit_drained)
next
  case False
  with assms have "submission (run_microtasks (callback SubmitFinal s)) = AwaitingDrain (pendingUploads s)"
    by (simp add: submitFinalResponses_def getPendingCount_def waitForAll_def)
  then show ?thesis unfolding step_def by (simp add: resume_submit_drained)
qed

text \<open>
  C1 fails as stated. The pipeline does not confirm the stop within two seconds, the
  timer registers upload 0, the submission starts and waits for upload 0, the late
  \<^verbatim>\<open>stop\<close> event registers upload 1, and when upload 0 is answered the request is sent
  while upload 1 is still pending and unsettled.
\<close>

theorem late_job_not_awaited_counterexample:
  "submission (run [StopRecording, Advance 2000, SubmitFinal, StopEvent] recording_client)
     = AwaitingDrain [0]
   \<and> pendingUploads (run [StopRecording, Advance 2000, SubmitFinal, StopEvent] recording_client)
     = [0, 1]
   \<and> submission (run [StopRecording, Advance 2000, SubmitFinal, StopEvent, FetchDone 0 upload_ok]
                    recording_client) = Posted
   \<and> pendingUploads (run [StopRecording, Advance 2000, SubmitFinal, StopEvent, FetchDone 0 upload_ok]
                    recording_client) = [1]
   \<and> \<not> is_settled 1 (run [StopRecording, Advance 2000, SubmitFinal, StopEvent, FetchDone 0 upload_ok]
                    recording_client)"
  by code_simp

text \<open>
  C1 as amended. The POST to the submit endpoint is sent only after every promise that
  was in the queue's in-flight set when \<^verbatim>\<open>submitFinalResponses\<close> was called has
  settled: if the submission has not started after the events \<open>es1\<close> and the request has
  been sent after the further events \<open>es2\<close>, every upload pending at the call is settled
  by then. Uploads registered after the call are not part of the barrier.
\<close>

theorem submit_after_snapshot_settled:
  assumes "submission (run es1 s0) = NotSubmitting"
    and "submission (run (es1 @ SubmitFinal # es2) s0) = Posted"
  shows "\<forall>p \<in> set (pendingUploads (run es1 s0)). is_settled p (run (es1 @ SubmitFinal # es2) s0)"
proof -
  have "drained (pendingUploads (run es1 s0)) (run (es1 @ SubmitFinal # es2) s0)"
    using assms(1) by (simp add: run_append drained_submit drained_run)
  with assms(2) show ?thesis
    by (simp add: drained_def allSettled_def list_all_iff)
qed

text \<open>
  C1 as amended, on an example: the recorder is stopped and confirms, the submission
  starts with upload 0 pending, and the request goes out when upload 0 is answered.
\<close>

theorem submit_after_snapshot_settled_witness:
  "submission (run [StopRecording, StopEvent] recording_client) = NotSubmitting
   \<and> pendingUploads (run [StopRecording, StopEvent] recording_client) = [0]
   \<and> submission (run ([StopRecording, StopEvent] @ SubmitFinal # [FetchDone 0 upload_ok])
                    recording_client) = Posted
   \<and> is_settled 0 (run ([StopRecording, StopEvent] @ SubmitFinal # [FetchDone 0 upload_ok])
                    recording_client)"
proof -
  have h1: "submission (run [StopRecording, StopEvent] recording_client) = NotSubmitting"
    by code_simp
  have h2: "submission (run ([StopRecording, StopEvent] @ SubmitFinal # [FetchDone 0 upload_ok])
                    recording_client) = Posted"
    by code_simp
  have h3: "pendingUploads (run [StopRecording, StopEvent] recording_client) = [0]"
    by code_simp
  from submit_after_snapshot_settled [OF h1 h2] h1 h2 h3 show ?thesis
    by simp
qed



subsection \<open>The stop timer\<close>

lemma armed_resume [simp]: "armed once dl L A (resume_submit s) = armed once dl L A s"
  by (simp add: armed_def resume_submit_def split: submit_state.splits)

lemma armed_microtasks [simp]: "armed once dl L A (run_microtasks s) = armed once dl L A s"
  by (simp add: armed_def run_microtasks_def)

lemma fired_resume [simp]: "fired once dl p b L A (resume_submit s) = fired once dl p b L A s"
  by (simp add: fired_def resume_submit_def split: submit_state.splits)

lemma fired_microtasks [simp]: "fired once dl p b L A (run_microtasks s) = fired once dl p b L A s"
  by (simp add: fired_def run_microtasks_def)

lemma save_and_enqueue_logs:
  "saveLog (save_and_enqueue s) = saveLog s @ [(clock s, next_promise s, concat (screenChunks s))]
   \<and> addLog (save_and_enqueue s) = addLog s @ [next_promise s]
   \<and> clock (save_and_enqueue s) = clock s
   \<and> onstopTimeout (save_and_enqueue s) = onstopTimeout s
   \<and> mediaRecorder (save_and_enqueue s) = mediaRecorder s"
  by (simp add: save_and_enqueue_def saveRecordings_def addUpload_def Let_def settle_def)

subsubsection \<open>What a save hands to the queue\<close>

lemma save_and_enqueue_pending:
  "next_promise s' = n \<Longrightarrow> n \<in> set (pendingUploads (save_and_enqueue s'))"
  by (auto simp: save_and_enqueue_def saveRecordings_def addUpload_def Let_def settle_def)

lemma save_and_enqueue_in_flight:
  "next_promise s' = n \<Longrightarrow> concat (screenChunks s') = b \<Longrightarrow> b \<noteq> []
     \<Longrightarrow> (n, b) \<in> set (in_flight (save_and_enqueue s'))"
  by (auto simp: save_and_enqueue_def saveRecordings_def addUpload_def Let_def settle_def)

lemma save_and_enqueue_keeps:
  "p \<in> set (pendingUploads s') \<Longrightarrow> p \<in> set (pendingUploads (save_and_enqueue s'))"
  by (auto simp: save_and_enqueue_def saveRecordings_def addUpload_def Let_def settle_def)

lemma save_and_enqueue_jobs:
  "finally_jobs s' = [] \<Longrightarrow> q \<in> set (finally_jobs (save_and_enqueue s'))
     \<Longrightarrow> is_settled q (save_and_enqueue s')"
  by (auto simp: save_and_enqueue_def saveRecordings_def addUpload_def Let_def settle_def
        is_settled_def split: if_splits)

lemma pending_callback:
  "p \<in> set (pendingUploads s) \<Longrightarrow> p \<in> set (pendingUploads (callback e s))"
proof (cases e)
  case (DataAvailable b)
  then show "p \<in> set (pendingUploads s) \<Longrightarrow> ?thesis" by (simp add: ondataavailable_def)
next
  case StopRecording
  then show "p \<in> set (pendingUploads s) \<Longrightarrow> ?thesis"
    by (simp add: stopRecording_def Let_def save_and_enqueue_keeps)
next
  case StopEvent
  then show "p \<in> set (pendingUploads s) \<Longrightarrow> ?thesis"
    by (simp add: onstop_event_def onstop_wrapper_def onstop_original_def Let_def
          save_and_enqueue_keeps split: option.splits)
next
  case (Advance d)
  then show "p \<in> set (pendingUploads s) \<Longrightarrow> ?thesis"
    by (simp add: advance_def onstopTimeout_fires_def save_and_enqueue_keeps split: option.splits)
next
  case (FetchDone q r)
  then show "p \<in> set (pendingUploads s) \<Longrightarrow> ?thesis"
    by (simp add: fetch_done_eq saveRecordings_resume_snd settle_def split: option.splits)
next
  case (ForeignSettles q out)
  then show "p \<in> set (pendingUploads s) \<Longrightarrow> ?thesis"
    by (simp add: foreign_settles_def settle_def)
next
  case SubmitFinal
  then show "p \<in> set (pendingUploads s) \<Longrightarrow> ?thesis"
    by (simp add: submitFinalResponses_def Let_def split: option.splits)
qed

lemma jobs_callback:
  assumes empty: "finally_jobs s = []" and q: "q \<in> set (finally_jobs (callback e s))"
  shows "is_settled q (callback e s)"
proof (cases e)
  case (DataAvailable b)
  with empty q show ?thesis by (simp add: ondataavailable_def split: if_splits)
next
  case StopRecording
  with empty q show ?thesis
    by (auto simp: stopRecording_def Let_def split: if_splits intro: save_and_enqueue_jobs)
next
  case StopEvent
  with empty q show ?thesis
    by (auto simp: onstop_event_def onstop_wrapper_def onstop_original_def Let_def
          split: option.splits if_splits intro: save_and_enqueue_jobs)
next
  case (Advance d)
  with empty q show ?thesis
    by (auto simp: advance_def onstopTimeout_fires_def is_settled_def
          split: option.splits if_splits
          dest: save_and_enqueue_jobs [unfolded is_settled_def, rotated])
next
  case (FetchDone p r)
  with empty q show ?thesis
    by (auto simp: fetch_done_eq saveRecordings_resume_snd settle_def is_settled_def
          split: option.splits if_splits)
next
  case (ForeignSettles p out)
  with empty q show ?thesis
    by (auto simp: foreign_settles_def settle_def is_settled_def split: if_splits)
next
  case SubmitFinal
  with empty q show ?thesis
    by (auto simp: submitFinalResponses_def Let_def split: option.splits if_splits)
qed

lemma finally_jobs_step: "finally_jobs (step e s) = []"
  by (simp add: step_def resume_submit_def run_microtasks_def split: submit_state.splits)

lemma finally_jobs_run: "finally_jobs s = [] \<Longrightarrow> finally_jobs (run es s) = []"
  by (induction es arbitrary: s) (simp_all add: finally_jobs_step)

lemma registered_after_callback:
  assumes empty: "finally_jobs s = []"
    and reg: "p \<in> set (pendingUploads (callback e s)) \<or> is_settled p (callback e s)"
  shows "registered p (step e s)"
proof (cases "is_settled p (callback e s)")
  case True
  then show ?thesis
    by (simp add: registered_def step_def is_settled_def)
next
  case False
  with reg have p: "p \<in> set (pendingUploads (callback e s))" by simp
  from False jobs_callback [OF empty] have "p \<notin> set (finally_jobs (callback e s))" by blast
  with p have "p \<in> set (pendingUploads (run_microtasks (callback e s)))"
    by (simp add: run_microtasks_def)
  then show ?thesis
    by (simp add: registered_def step_def resume_submit_def split: submit_state.splits)
qed

lemma registered_step:
  assumes empty: "finally_jobs s = []" and reg: "registered p s"
  shows "registered p (step e s)"
proof -
  from reg have "p \<in> set (pendingUploads (callback e s)) \<or> is_settled p (callback e s)"
    unfolding registered_def
    using pending_callback [of p s e] is_settled_mono [OF settled_callback, of p s e] by blast
  then show ?thesis by (rule registered_after_callback [OF empty])
qed

subsubsection \<open>The timer while no stop event arrives\<close>

lemma armed_callback:
  assumes a: "armed once dl L A s" and e: "e \<noteq> StopEvent" "once \<longrightarrow> e \<noteq> StopRecording"
  shows "armed once dl L A (callback e s)
       \<or> ((\<exists>d. e = Advance d)
          \<and> fired once dl (next_promise s) (concat (screenChunks s)) (saveLog s) (addLog s)
               (callback e s)
          \<and> next_promise s \<in> set (pendingUploads (callback e s))
          \<and> (concat (screenChunks s) \<noteq> [] \<longrightarrow>
                (next_promise s, concat (screenChunks s)) \<in> set (in_flight (callback e s))))"
proof (cases e)
  case (DataAvailable b)
  with a show ?thesis by (simp add: armed_def ondataavailable_def)
next
  case StopRecording
  with a e show ?thesis
    by (simp add: armed_def stopRecording_def Let_def save_and_enqueue_logs)
next
  case (Advance d)
  show ?thesis
  proof (cases "dl \<le> clock s + d")
    case False
    with a Advance show ?thesis by (simp add: armed_def advance_def)
  next
    case True
    let ?t = "s\<lparr> clock := max (clock s) dl, onstopTimeout := None \<rparr>"
    have cb: "callback e s = (save_and_enqueue ?t)\<lparr> clock := clock s + d \<rparr>"
      using a Advance True by (simp add: armed_def advance_def onstopTimeout_fires_def)
    have m: "max (clock s) dl = dl" using a by (simp add: armed_def max_def)
    have f: "fired once dl (next_promise s) (concat (screenChunks s)) (saveLog s) (addLog s)
               (callback e s)"
      using a True by (simp add: cb fired_def armed_def save_and_enqueue_logs m)
    have p: "next_promise s \<in> set (pendingUploads (callback e s))"
      by (simp add: cb save_and_enqueue_pending)
    have i: "concat (screenChunks s) \<noteq> [] \<longrightarrow>
                (next_promise s, concat (screenChunks s)) \<in> set (in_flight (callback e s))"
      by (simp add: cb save_and_enqueue_in_flight)
    from Advance f p i show ?thesis by blast
  qed
next
  case (FetchDone p r)
  with a show ?thesis
    by (simp add: armed_def fetch_done_eq saveRecordings_resume_snd settle_def split: option.splits)
next
  case (ForeignSettles p out)
  with a show ?thesis by (simp add: armed_def foreign_settles_def settle_def)
next
  case SubmitFinal
  with a show ?thesis
    by (simp add: armed_def submitFinalResponses_def Let_def split: option.splits)
qed (use e in simp_all)

lemma fired_callback:
  assumes a: "fired once dl p b L A s" and e: "e \<noteq> StopEvent" "once \<longrightarrow> e \<noteq> StopRecording"
  shows "fired once dl p b L A (callback e s)"
proof (cases e)
  case (DataAvailable c)
  with a show ?thesis by (simp add: fired_def ondataavailable_def)
next
  case StopRecording
  with a e show ?thesis
    by (simp add: fired_def stopRecording_def Let_def save_and_enqueue_logs)
next
  case (Advance d)
  with a show ?thesis by (simp add: fired_def advance_def)
next
  case (FetchDone q r)
  with a show ?thesis
    by (simp add: fired_def fetch_done_eq saveRecordings_resume_snd settle_def split: option.splits)
next
  case (ForeignSettles q out)
  with a show ?thesis by (simp add: fired_def foreign_settles_def settle_def)
next
  case SubmitFinal
  with a show ?thesis
    by (simp add: fired_def submitFinalResponses_def Let_def split: option.splits)
qed (use e in simp_all)

lemma armed_after_stop:
  assumes "mediaRecorder s0 \<noteq> None" "mediaRecorder s0 \<noteq> Some Inactive"
  shows "armed once (clock s0 + 2000) (saveLog s0) (addLog s0) (step StopRecording s0)"
proof -
  have "armed once (clock s0 + 2000) (saveLog s0) (addLog s0) (stopRecording s0)"
    using assms by (simp add: stopRecording_def Let_def armed_def)
  then show ?thesis by (simp add: step_def)
qed

lemma watchdog_trace:
  assumes start: "armed once dl (saveLog s1) (addLog s1) s1" and idle: "finally_jobs s1 = []"
    and quiet: "StopEvent \<notin> set es" "once \<longrightarrow> StopRecording \<notin> set es"
  shows "armed once dl (saveLog s1) (addLog s1) (run es s1) \<or> (\<exists>k. crossed once dl s1 es k)"
  using quiet
proof (induction es rule: rev_induct)
  case Nil
  with start show ?case by simp
next
  case (snoc e es)
  then have q: "StopEvent \<notin> set es" "once \<longrightarrow> StopRecording \<notin> set es"
    and e: "e \<noteq> StopEvent" "once \<longrightarrow> e \<noteq> StopRecording"
    by auto
  have run_snoc: "run (es @ [e]) s1 = step e (run es s1)"
    by (simp add: run_append)
  have idle': "finally_jobs (run es s1) = []"
    using idle by (rule finally_jobs_run)
  from snoc.IH [OF q] show ?case
  proof
    assume a: "armed once dl (saveLog s1) (addLog s1) (run es s1)"
    from armed_callback [OF a e] show ?thesis
    proof
      assume "armed once dl (saveLog s1) (addLog s1) (callback e (run es s1))"
      then show ?thesis by (simp add: run_snoc step_def)
    next
      assume c: "(\<exists>d. e = Advance d)
          \<and> fired once dl (next_promise (run es s1)) (concat (screenChunks (run es s1)))
               (saveLog (run es s1)) (addLog (run es s1)) (callback e (run es s1))
          \<and> next_promise (run es s1) \<in> set (pendingUploads (callback e (run es s1)))
          \<and> (concat (screenChunks (run es s1)) \<noteq> [] \<longrightarrow>
                (next_promise (run es s1), concat (screenChunks (run es s1)))
                  \<in> set (in_flight (callback e (run es s1))))"
      then have f: "fired once dl (next_promise (run es s1)) (concat (screenChunks (run es s1)))
               (saveLog (run es s1)) (addLog (run es s1)) (step e (run es s1))"
        by (simp add: step_def)
      from c have r: "registered (next_promise (run es s1)) (step e (run es s1))"
        by (blast intro: registered_after_callback [OF idle'])
      have t: "take (length es) (es @ [e]) = es" "(es @ [e]) ! length es = e" by simp_all
      from a have "clock (run es s1) < dl"
        and "once \<longrightarrow> saveLog (run es s1) = saveLog s1 \<and> addLog (run es s1) = addLog s1"
        by (simp_all add: armed_def)
      with c f r have "crossed once dl s1 (es @ [e]) (length es)"
        unfolding crossed_def t run_snoc by simp
      then show ?thesis by blast
    qed
  next
    assume "\<exists>k. crossed once dl s1 es k"
    then obtain k where k: "crossed once dl s1 es k" by blast
    then have lt: "k < length es" by (simp add: crossed_def)
    then have t: "take k (es @ [e]) = take k es" "(es @ [e]) ! k = es ! k"
      by (simp_all add: nth_append)
    from k have f: "fired once dl (next_promise (run (take k es) s1))
          (concat (screenChunks (run (take k es) s1)))
          (saveLog (run (take k es) s1)) (addLog (run (take k es) s1)) (run es s1)"
      and r: "registered (next_promise (run (take k es) s1)) (run es s1)"
      by (simp_all add: crossed_def)
    from fired_callback [OF f e]
    have f': "fired once dl (next_promise (run (take k es) s1))
          (concat (screenChunks (run (take k es) s1)))
          (saveLog (run (take k es) s1)) (addLog (run (take k es) s1)) (step e (run es s1))"
      by (simp add: step_def)
    from registered_step [OF idle' r]
    have r': "registered (next_promise (run (take k es) s1)) (step e (run es s1))" .
    from k f' r' lt have "crossed once dl s1 (es @ [e]) k"
      unfolding crossed_def t run_snoc by simp
    then show ?thesis by blast
  qed
qed

text \<open>
  C4. \<^verbatim>\<open>stopRecording\<close> is called at time \<open>clock s0\<close> on a recorder that is not
  inactive, and afterwards no \<^verbatim>\<open>stop\<close> event arrives. Then, as long as fewer than
  2000 ms have passed, the timer stays armed. Once 2000 ms have passed, the timer has run,
  at the step \<open>k\<close> that moved the clock across the deadline \<open>clock s0 + 2000\<close>: its
  callback assembled the chunks collected up to that moment, logged the save with the
  deadline as its time, handed the save's promise to the queue, so that the promise is in
  the in-flight set when the callback returns, and, unless the blob is empty, sent the
  upload request; from then on that promise is in the in-flight set until it has settled.
  If moreover \<^verbatim>\<open>stopRecording\<close> is not called a second time, nothing is saved or
  registered before the deadline and this save is the only one.
\<close>

theorem watchdog_forces_finalize:
  assumes active: "mediaRecorder s0 \<noteq> None" "mediaRecorder s0 \<noteq> Some Inactive"
    and quiet: "StopEvent \<notin> set es"
  shows "(clock (run es (step StopRecording s0)) < clock s0 + 2000 \<longrightarrow>
            onstopTimeout (run es (step StopRecording s0)) = Some (clock s0 + 2000)
          \<and> (StopRecording \<notin> set es \<longrightarrow>
                saveLog (run es (step StopRecording s0)) = saveLog s0
              \<and> addLog (run es (step StopRecording s0)) = addLog s0))
       \<and> (clock s0 + 2000 \<le> clock (run es (step StopRecording s0)) \<longrightarrow>
            (\<exists>k < length es.
                clock (run (take k es) (step StopRecording s0)) < clock s0 + 2000
              \<and> (\<exists>d. es ! k = Advance d)
              \<and> next_promise (run (take k es) (step StopRecording s0))
                  \<in> set (pendingUploads
                           (callback (es ! k) (run (take k es) (step StopRecording s0))))
              \<and> (concat (screenChunks (run (take k es) (step StopRecording s0))) \<noteq> [] \<longrightarrow>
                  (next_promise (run (take k es) (step StopRecording s0)),
                   concat (screenChunks (run (take k es) (step StopRecording s0))))
                    \<in> set (in_flight
                             (callback (es ! k) (run (take k es) (step StopRecording s0)))))
              \<and> prefix (saveLog (run (take k es) (step StopRecording s0))
                         @ [(clock s0 + 2000,
                             next_promise (run (take k es) (step StopRecording s0)),
                             concat (screenChunks (run (take k es) (step StopRecording s0))))])
                  (saveLog (run es (step StopRecording s0)))
              \<and> prefix (addLog (run (take k es) (step StopRecording s0))
                         @ [next_promise (run (take k es) (step StopRecording s0))])
                  (addLog (run es (step StopRecording s0)))
              \<and> (next_promise (run (take k es) (step StopRecording s0))
                    \<in> set (pendingUploads (run es (step StopRecording s0)))
                 \<or> is_settled (next_promise (run (take k es) (step StopRecording s0)))
                      (run es (step StopRecording s0)))
              \<and> (StopRecording \<notin> set es \<longrightarrow>
                    saveLog (run es (step StopRecording s0)) =
                      saveLog s0 @ [(clock s0 + 2000,
                                     next_promise (run (take k es) (step StopRecording s0)),
                                     concat (screenChunks (run (take k es) (step StopRecording s0))))]
                  \<and> addLog (run es (step StopRecording s0)) =
                      addLog s0 @ [next_promise (run (take k es) (step StopRecording s0))])))"
proof -
  let ?s1 = "step StopRecording s0"
  let ?once = "StopRecording \<notin> set es"
  have logs: "saveLog ?s1 = saveLog s0" "addLog ?s1 = addLog s0"
    using armed_after_stop [OF active, of True] by (simp_all add: armed_def)
  have start: "armed ?once (clock s0 + 2000) (saveLog ?s1) (addLog ?s1) ?s1"
    using armed_after_stop [OF active, of ?once] by (simp add: logs)
  have idle: "finally_jobs ?s1 = []" by (rule finally_jobs_step)
  from watchdog_trace [OF start idle quiet]
  have "armed ?once (clock s0 + 2000) (saveLog ?s1) (addLog ?s1) (run es ?s1)
      \<or> (\<exists>k. crossed ?once (clock s0 + 2000) ?s1 es k)"
    by simp
  then show ?thesis
  proof
    assume "armed ?once (clock s0 + 2000) (saveLog ?s1) (addLog ?s1) (run es ?s1)"
    then show ?thesis by (simp add: armed_def logs)
  next
    assume "\<exists>k. crossed ?once (clock s0 + 2000) ?s1 es k"
    then obtain k where k: "crossed ?once (clock s0 + 2000) ?s1 es k" by blast
    then have late: "clock s0 + 2000 \<le> clock (run es ?s1)"
      by (simp add: crossed_def fired_def)
    have "k < length es
        \<and> clock (run (take k es) ?s1) < clock s0 + 2000
        \<and> (\<exists>d. es ! k = Advance d)
        \<and> next_promise (run (take k es) ?s1)
            \<in> set (pendingUploads (callback (es ! k) (run (take k es) ?s1)))
        \<and> (concat (screenChunks (run (take k es) ?s1)) \<noteq> [] \<longrightarrow>
            (next_promise (run (take k es) ?s1), concat (screenChunks (run (take k es) ?s1)))
              \<in> set (in_flight (callback (es ! k) (run (take k es) ?s1))))
        \<and> prefix (saveLog (run (take k es) ?s1)
                   @ [(clock s0 + 2000, next_promise (run (take k es) ?s1),
                       concat (screenChunks (run (take k es) ?s1)))])
            (saveLog (run es ?s1))
        \<and> prefix (addLog (run (take k es) ?s1) @ [next_promise (run (take k es) ?s1)])
            (addLog (run es ?s1))
        \<and> (next_promise (run (take k es) ?s1) \<in> set (pendingUploads (run es ?s1))
           \<or> is_settled (next_promise (run (take k es) ?s1)) (run es ?s1))
        \<and> (?once \<longrightarrow>
              saveLog (run es ?s1) =
                saveLog s0 @ [(clock s0 + 2000, next_promise (run (take k es) ?s1),
                               concat (screenChunks (run (take k es) ?s1)))]
            \<and> addLog (run es ?s1) = addLog s0 @ [next_promise (run (take k es) ?s1)])"
      using k unfolding crossed_def fired_def registered_def logs by auto
    moreover from late have "\<not> clock (run es ?s1) < clock s0 + 2000" by simp
    ultimately show ?thesis by blast
  qed
qed

text \<open>
  C4 on examples. Stop at time 0, a last chunk arrives at 1999 ms, and the timer saves all
  four bytes at 2000 ms and leaves their upload in flight. With a second call of
  \<^verbatim>\<open>stopRecording\<close> in between, which saves at once, the timer still saves at 2000 ms.
\<close>

theorem watchdog_forces_finalize_witness:
  "StopEvent \<notin> set [Advance 1999, DataAvailable [7], Advance 5]
   \<and> StopRecording \<notin> set [Advance 1999, DataAvailable [7], Advance 5]
   \<and> onstopTimeout (run [Advance 1999] (step StopRecording recording_client)) = Some 2000
   \<and> saveLog (run [Advance 1999] (step StopRecording recording_client)) = []
   \<and> saveLog (run [Advance 1999, DataAvailable [7], Advance 5] (step StopRecording recording_client))
       = [(2000, 0, [1, 2, 3, 7])]
   \<and> addLog (run [Advance 1999, DataAvailable [7], Advance 5] (step StopRecording recording_client))
       = [0]
   \<and> pendingUploads (run [Advance 1999, DataAvailable [7], Advance 5]
         (step StopRecording recording_client)) = [0]
   \<and> in_flight (run [Advance 1999, DataAvailable [7], Advance 5]
         (step StopRecording recording_client)) = [(0, [1, 2, 3, 7])]
   \<and> saveLog (run [StopRecording, Advance 2000] (step StopRecording recording_client))
       = [(0, 0, [1, 2, 3]), (2000, 1, [1, 2, 3])]
   \<and> pendingUploads (run [StopRecording, Advance 2000] (step StopRecording recording_client))
       = [0, 1]"
proof -
  have a: "mediaRecorder recording_client \<noteq> None" "mediaRecorder recording_client \<noteq> Some Inactive"
    by code_simp+
  have q1: "StopEvent \<notin> set [Advance 1999]"
    and q2: "StopEvent \<notin> set [Advance 1999, DataAvailable [7], Advance 5]"
    and q3: "StopEvent \<notin> set [StopRecording, Advance 2000]"
    and o2: "StopRecording \<notin> set [Advance 1999, DataAvailable [7], Advance 5]"
    by simp_all
  have c1: "clock (run [Advance 1999] (step StopRecording recording_client)) < clock recording_client + 2000"
    by code_simp
  have c2: "clock recording_client + 2000
              \<le> clock (run [Advance 1999, DataAvailable [7], Advance 5]
                         (step StopRecording recording_client))"
    by code_simp
  have c3: "clock recording_client + 2000
              \<le> clock (run [StopRecording, Advance 2000] (step StopRecording recording_client))"
    by code_simp
  have e1: "onstopTimeout (run [Advance 1999] (step StopRecording recording_client)) = Some 2000"
           "saveLog (run [Advance 1999] (step StopRecording recording_client)) = []"
    by code_simp+
  have e2: "saveLog (run [Advance 1999, DataAvailable [7], Advance 5] (step StopRecording recording_client))
             = [(2000, 0, [1, 2, 3, 7])]"
           "addLog (run [Advance 1999, DataAvailable [7], Advance 5] (step StopRecording recording_client))
             = [0]"
           "pendingUploads (run [Advance 1999, DataAvailable [7], Advance 5]
              (step StopRecording recording_client)) = [0]"
           "in_flight (run [Advance 1999, DataAvailable [7], Advance 5]
              (step StopRecording recording_client)) = [(0, [1, 2, 3, 7])]"
    by code_simp+
  have e3: "saveLog (run [StopRecording, Advance 2000] (step StopRecording recording_client))
             = [(0, 0, [1, 2, 3]), (2000, 1, [1, 2, 3])]"
           "pendingUploads (run [StopRecording, Advance 2000] (step StopRecording recording_client))
             = [0, 1]"
    by code_simp+
  from watchdog_forces_finalize [OF a q1, THEN conjunct1, rule_format, OF c1]
       watchdog_forces_finalize [OF a q2, THEN conjunct2, rule_format, OF c2]
       watchdog_forces_finalize [OF a q3, THEN conjunct2, rule_format, OF c3]
       q2 o2 e1 e2 e3
  show ?thesis by (simp only: simp_thms)
qed

text \<open>
  C3. When the \<^verbatim>\<open>stop\<close> event arrives before the timer, the wrapper clears the timer
  and one save is made and registered. When the timer runs first and the \<^verbatim>\<open>stop\<close>
  event arrives afterwards, the handler's \<^verbatim>\<open>onstopFired\<close> flag is still unset, and a
  second save is made and registered: two uploads of the same chunks are in flight.
\<close>

theorem late_confirmation_finalizes_twice:
  "saveLog (run [StopRecording, StopEvent, Advance 2000] recording_client) = [(0, 0, [1, 2, 3])]
   \<and> addLog (run [StopRecording, StopEvent, Advance 2000] recording_client) = [0]
   \<and> saveLog (run [StopRecording, Advance 2000, Advance 500, StopEvent] recording_client)
       = [(2000, 0, [1, 2, 3]), (2500, 1, [1, 2, 3])]
   \<and> addLog (run [StopRecording, Advance 2000, Advance 500, StopEvent] recording_client) = [0, 1]
   \<and> in_flight (run [StopRecording, Advance 2000, Advance 500, StopEvent] recording_client)
       = [(0, [1, 2, 3]), (1, [1, 2, 3])]"
  by code_simp

subsection \<open>Empty captures\<close>

text \<open>
  C5 fails as stated: with no chunk collected, the \<^verbatim>\<open>stop\<close> handler still hands the
  promise of \<^verbatim>\<open>saveRecordings\<close> to \<^verbatim>\<open>addUpload\<close>, and the pending count is 1 when
  the handler returns.
\<close>

theorem empty_capture_enqueued_counterexample:
  "concat (screenChunks silent_client) = []
   \<and> getPendingCount silent_client = 0
   \<and> getPendingCount (onstop_event silent_client) = 1
   \<and> addLog (step StopEvent silent_client) = [0]"
  by code_simp

text \<open>
  C5 as amended. When the assembled blob is empty, the save routine sets the error
  \<^verbatim>\<open>Screen recording did not capture any data.\<close>, distinct from the error of a failed
  upload, and sends no upload request. Its promise, already fulfilled, is still
  registered with the queue, so the pending count is one higher when the callback
  returns; the promise's \<^verbatim>\<open>finally\<close> reaction removes it in the same turn of the event
  loop, after which the in-flight set is what it was before.
\<close>

theorem empty_capture_reported_without_upload:
  assumes empty: "concat (screenChunks s) = []"
    and quiescent: "finally_jobs s = []"
    and fresh: "next_promise s \<notin> set (pendingUploads s)"
  shows "error (save_and_enqueue s) = ''Screen recording did not capture any data.''
       \<and> error (save_and_enqueue s) \<noteq> ''Failed to save recording''
       \<and> in_flight (save_and_enqueue s) = in_flight s
       \<and> (next_promise s, Fulfilled) \<in> set (settled (save_and_enqueue s))
       \<and> addLog (save_and_enqueue s) = addLog s @ [next_promise s]
       \<and> getPendingCount (save_and_enqueue s) = getPendingCount s + 1
       \<and> pendingUploads (run_microtasks (save_and_enqueue s)) = pendingUploads s"
proof -
  have eq: "save_and_enqueue s =
          s\<lparr> next_promise := Suc (next_promise s),
             saveLog := saveLog s @ [(clock s, next_promise s, [])],
             error := ''Screen recording did not capture any data.'',
             settled := settled s @ [(next_promise s, Fulfilled)],
             pendingUploads := pendingUploads s @ [next_promise s],
             addLog := addLog s @ [next_promise s],
             finally_jobs := [next_promise s] \<rparr>"
    using empty quiescent fresh
    by (simp add: save_and_enqueue_def saveRecordings_def addUpload_def Let_def settle_def
          settlement_of_def is_settled_def)
  have "filter (\<lambda>p. p \<noteq> next_promise s) (pendingUploads s) = pendingUploads s"
    using fresh by (auto simp: filter_id_conv)
  then show ?thesis
    by (simp add: eq getPendingCount_def run_microtasks_def)
qed

text \<open>C5 as amended, on the recorder that collected no chunk.\<close>

theorem empty_capture_reported_without_upload_witness:
  "concat (screenChunks silent_client) = []
   \<and> error (save_and_enqueue silent_client) = ''Screen recording did not capture any data.''
   \<and> in_flight (save_and_enqueue silent_client) = []
   \<and> getPendingCount (save_and_enqueue silent_client) = 1
   \<and> pendingUploads (run_microtasks (save_and_enqueue silent_client)) = []"
proof -
  have h: "concat (screenChunks silent_client) = []" "finally_jobs silent_client = []"
          "next_promise silent_client \<notin> set (pendingUploads silent_client)"
    by code_simp+
  have v: "in_flight silent_client = []" "getPendingCount silent_client = 0"
          "pendingUploads silent_client = []"
    by code_simp+
  from empty_capture_reported_without_upload [OF h] h v show ?thesis by simp
qed

subsection \<open>The save routine never rejects\<close>

lemma no_reject_save_and_enqueue:
  "Rejected \<notin> snd ` set (settled s) \<Longrightarrow> Rejected \<notin> snd ` set (settled (save_and_enqueue s))"
  by (simp add: save_and_enqueue_def saveRecordings_def Let_def settle_def settlement_of_def)

lemma no_reject_upd:
  "settled s' = settled s \<Longrightarrow> Rejected \<notin> snd ` set (settled s)
     \<Longrightarrow> Rejected \<notin> snd ` set (settled (save_and_enqueue s'))"
  using no_reject_save_and_enqueue [of s'] by simp

lemma no_reject_callback:
  assumes clean: "Rejected \<notin> snd ` set (settled s)"
    and e: "\<forall>p. e \<noteq> ForeignSettles p Rejected"
  shows "Rejected \<notin> snd ` set (settled (callback e s))"
proof (cases e)
  case (DataAvailable b)
  with clean show ?thesis by (simp add: ondataavailable_def)
next
  case StopRecording
  with clean show ?thesis by (simp add: stopRecording_def Let_def no_reject_upd)
next
  case StopEvent
  with clean show ?thesis
    by (simp add: onstop_event_def onstop_wrapper_def onstop_original_def Let_def no_reject_upd
          split: option.splits)
next
  case (Advance d)
  with clean show ?thesis
    by (simp add: advance_def onstopTimeout_fires_def no_reject_upd split: option.splits)
next
  case (FetchDone p r)
  with clean show ?thesis
    by (simp add: fetch_done_eq saveRecordings_resume_snd settle_def split: option.splits)
next
  case (ForeignSettles p out)
  with e have "out = Fulfilled" by (cases out) simp_all
  with clean ForeignSettles show ?thesis by (simp add: foreign_settles_def settle_def)
next
  case SubmitFinal
  with clean show ?thesis
    by (simp add: submitFinalResponses_def Let_def split: option.splits)
qed

lemma no_reject_run:
  "Rejected \<notin> snd ` set (settled s) \<Longrightarrow> \<forall>p. ForeignSettles p Rejected \<notin> set es
     \<Longrightarrow> Rejected \<notin> snd ` set (settled (run es s))"
proof (induction es arbitrary: s)
  case Nil
  then show ?case by simp
next
  case (Cons e es)
  from Cons.prems have "\<forall>p. e \<noteq> ForeignSettles p Rejected"
    by auto
  with Cons.prems have "Rejected \<notin> snd ` set (settled (step e s))"
    by (simp add: step_def no_reject_callback)
  with Cons show ?case by simp
qed

text \<open>
  C9. Whatever the upload request ends with, \<^verbatim>\<open>saveRecordings\<close> completes normally and
  its promise is fulfilled; a failed upload (rejected or aborted request, error status,
  unparsable body) shows only in the component's error state. Hence the promise of a
  request in flight is settled as fulfilled by its answer, and no run of the recorder
  records a rejected promise unless a promise registered by someone else rejects.
\<close>

theorem saveRecordings_never_rejects:
  "settlement_of (fst (saveRecordings_resume r s)) = Fulfilled
   \<and> (fetch_try r \<noteq> Inr () \<longrightarrow>
        error (snd (saveRecordings_resume r s)) = ''Failed to save recording''
      \<and> saveComplete (snd (saveRecordings_resume r s)) = saveComplete s)
   \<and> (map_of (in_flight s) p \<noteq> None \<longrightarrow> (p, Fulfilled) \<in> set (settled (fetch_done p r s)))
   \<and> (Rejected \<notin> snd ` set (settled s) \<and> (\<forall>q. ForeignSettles q Rejected \<notin> set es) \<longrightarrow>
        Rejected \<notin> snd ` set (settled (run es s)))"
  by (auto simp: saveRecordings_resume_fst saveRecordings_resume_snd settlement_of_def
        fetch_done_eq settle_def dest: no_reject_run)

text \<open>C9 on an example: the upload request is aborted by the two-minute timer.\<close>

theorem saveRecordings_never_rejects_witness:
  "fetch_try upload_timeout \<noteq> Inr ()
   \<and> error (snd (saveRecordings_resume upload_timeout busy_client)) = ''Failed to save recording''
   \<and> (0, Fulfilled) \<in> set (settled (fetch_done 0 upload_timeout busy_client))
   \<and> Rejected \<notin> snd ` set (settled (run [FetchDone 0 upload_timeout] busy_client))"
proof -
  have h: "fetch_try upload_timeout \<noteq> Inr ()" "map_of (in_flight busy_client) 0 \<noteq> None"
          "Rejected \<notin> snd ` set (settled busy_client)"
          "\<forall>q. ForeignSettles q Rejected \<notin> set [FetchDone 0 upload_timeout]"
    by (code_simp, code_simp, code_simp, simp)
  from saveRecordings_never_rejects
         [of upload_timeout busy_client 0 "[FetchDone 0 upload_timeout]"] h
  show ?thesis by simp
qed

end
